theory Spec2Isabelle
  imports Main "HOL-Library.Sublist"
begin

section \<open>JavaScript values and strings\<close>

text \<open>
  A JavaScript string is a sequence of code units. It is modelled as a \<^typ>\<open>string\<close>, one
  \<^typ>\<open>char\<close> per code unit, over the code units U+0000 to U+00FF: these are the strings
  the HTTP layer builds for a request target, and the characters the filename policy
  accepts are all ASCII. The text of a write request is only appended and echoed.

  The values that reach the handlers are \<open>undefined\<close> (a missing query parameter or a
  missing array element), \<open>null\<close>, a string, or an array of strings (a query parameter
  that is repeated in the URL).
\<close>

datatype js_value = JUndefined | JNull | JStr string | JArr "string list"

text \<open>Truthiness, as tested by \<open>!x\<close>: the empty string is falsy, every array is truthy.\<close>

fun truthy :: "js_value \<Rightarrow> bool" where
  "truthy JUndefined = False"
| "truthy JNull = False"
| "truthy (JStr s) = (s \<noteq> [])"
| "truthy (JArr xs) = True"

fun is_string :: "js_value \<Rightarrow> bool" where
  "is_string (JStr s) = True"
| "is_string v = False"

text \<open>\<open>Array.prototype.join\<close> with a separator.\<close>

fun join_with :: "string \<Rightarrow> string list \<Rightarrow> string" where
  "join_with sep [] = []"
| "join_with sep [x] = x"
| "join_with sep (x # y # ys) = x @ sep @ join_with sep (y # ys)"

text \<open>
  String conversion, as applied by \<open>text + '\n'\<close> and by a template literal: an array
  is joined with commas.
\<close>

fun to_string :: "js_value \<Rightarrow> string" where
  "to_string JUndefined = ''undefined''"
| "to_string JNull = ''null''"
| "to_string (JStr s) = s"
| "to_string (JArr xs) = join_with '','' xs"

definition charCode :: "char \<Rightarrow> nat" where
  "charCode c = of_char c"

text \<open>\<open>String.prototype.includes\<close>, \<open>startsWith\<close> and \<open>endsWith\<close>.\<close>

fun str_includes :: "string \<Rightarrow> string \<Rightarrow> bool" where
  "str_includes [] pat = (pat = [])"
| "str_includes (c # cs) pat = (prefix pat (c # cs) \<or> str_includes cs pat)"

definition startsWith :: "string \<Rightarrow> string \<Rightarrow> bool" where
  "startsWith s pat = prefix pat s"

definition endsWith :: "string \<Rightarrow> string \<Rightarrow> bool" where
  "endsWith s pat = (length pat \<le> length s \<and> drop (length s - length pat) s = pat)"

text \<open>
  White space as \<open>String.prototype.trim\<close> sees it, among the code units of the model:
  TAB, LF, VT, FF, CR, space and the no-break space U+00A0.
\<close>

definition is_white_space :: "char \<Rightarrow> bool" where
  "is_white_space c =
     (let n = charCode c in (9 \<le> n \<and> n \<le> 13) \<or> n = 32 \<or> n = 160)"

definition trim :: "string \<Rightarrow> string" where
  "trim s = rev (dropWhile is_white_space (rev (dropWhile is_white_space s)))"

section \<open>PathValidator\<close>

text \<open>The character class \<open>[a-zA-Z0-9_\-\.]\<close> of the validator's pattern.\<close>

definition in_valid_class :: "char \<Rightarrow> bool" where
  "in_valid_class c =
     (let n = charCode c in
        (97 \<le> n \<and> n \<le> 122) \<or> (65 \<le> n \<and> n \<le> 90) \<or> (48 \<le> n \<and> n \<le> 57)
        \<or> c = CHR ''_'' \<or> c = CHR ''-'' \<or> c = CHR ''.'')"

text \<open>\<open>/^[a-zA-Z0-9_\-\.]+$/.test(s)\<close>: one or more characters, all of the class.\<close>

definition validPattern_test :: "string \<Rightarrow> bool" where
  "validPattern_test s = (s \<noteq> [] \<and> list_all in_valid_class s)"

text \<open>
  \<open>PathValidator.isValidFilename\<close>: the four checks in the order of the source.
\<close>

fun isValidFilename :: "js_value \<Rightarrow> bool" where
  "isValidFilename (JStr filename) =
     (if filename = [] then False
      else if str_includes filename ''..'' \<or> str_includes filename ''/''
              \<or> str_includes filename [CHR 0x5C] then False
      else if \<not> endsWith filename ''.txt'' then False
      else if \<not> validPattern_test filename then False
      else True)"
| "isValidFilename v = False"

text \<open>\<open>PathValidator.sanitizeFilename\<close>.\<close>

definition sanitizeFilename :: "string \<Rightarrow> string" where
  "sanitizeFilename filename = trim filename"

section \<open>The platform's path module\<close>

text \<open>
  \<open>path.join\<close> is the platform's (POSIX flavour): the non-empty arguments are joined
  with \<open>/\<close> and the result is normalised. Normalising drops empty and \<open>.\<close> segments,
  lets a \<open>..\<close> segment remove the segment before it (or keeps it, in a relative path
  that has nothing left to remove), and keeps a leading and a trailing slash.
\<close>

fun split_slash :: "string \<Rightarrow> string list" where
  "split_slash [] = [[]]"
| "split_slash (c # cs) =
     (if c = CHR ''/'' then [] # split_slash cs
      else (case split_slash cs of [] \<Rightarrow> [[c]] | s # ss \<Rightarrow> (c # s) # ss))"

definition norm_step :: "bool \<Rightarrow> string list \<Rightarrow> string \<Rightarrow> string list" where
  "norm_step allowAboveRoot res seg =
     (if seg = [] \<or> seg = ''.'' then res
      else if seg = ''..'' then
        (if res \<noteq> [] \<and> last res \<noteq> ''..'' then butlast res
         else if allowAboveRoot then res @ [''..'']
         else res)
      else res @ [seg])"

definition normalizeString :: "string \<Rightarrow> bool \<Rightarrow> string list" where
  "normalizeString path allowAboveRoot = foldl (norm_step allowAboveRoot) [] (split_slash path)"

definition isAbsolute :: "string \<Rightarrow> bool" where
  "isAbsolute path = (path \<noteq> [] \<and> hd path = CHR ''/'')"

definition path_normalize :: "string \<Rightarrow> string" where
  "path_normalize path =
     (if path = [] then ''.''
      else
        let trailingSeparator = (last path = CHR ''/'');
            p = join_with ''/'' (normalizeString path (\<not> isAbsolute path))
        in if p = [] then
             (if isAbsolute path then ''/'' else if trailingSeparator then ''./'' else ''.'')
           else (if isAbsolute path then ''/'' else []) @ p
                @ (if trailingSeparator then ''/'' else []))"

definition path_join :: "string list \<Rightarrow> string" where
  "path_join args =
     (let joined = join_with ''/'' (filter (\<lambda>arg. arg \<noteq> []) args)
      in if joined = [] then ''.'' else path_normalize joined)"

section \<open>The file system\<close>

text \<open>
  The file system is a tree: a location is the list of names that lead to it from the
  root, and holds a regular file with its text, or a directory. The root is a directory.
  A file written with encoding \<open>utf8\<close> and read with the same encoding holds its text.
  There are no symbolic links.

  A path is resolved as the operating system does it, segment by segment, from the root
  when the path is absolute and from the working directory otherwise: an empty segment
  and \<open>.\<close> stay, \<open>..\<close> goes to the parent, a name goes to the entry of that name. Every
  location the resolution passes through has to be a directory, so a file can only be
  reached, or made, inside a directory that exists.

  The operating system may also refuse a call for a reason the tree does not show
  (permissions, a full disk): \<open>fault\<close> says which calls it refuses and with what error.
\<close>

datatype io_error = ENOENT | EEXIST | EISDIR | ENOTDIR | EACCES | EIO

datatype js_error = TypeError | SystemError io_error

datatype node = File string | Dir

datatype fs_call = Mkdir string | AppendFile string | Access string | ReadFile string

type_synonym location = "string list"

record filesystem =
  nodes :: "location \<rightharpoonup> node"
  cwd :: location
  fault :: "fs_call \<Rightarrow> io_error option"

definition node_at :: "filesystem \<Rightarrow> location \<Rightarrow> node option" where
  "node_at fs loc = (if loc = [] then Some Dir else nodes fs loc)"

definition put_node :: "filesystem \<Rightarrow> location \<Rightarrow> node \<Rightarrow> filesystem" where
  "put_node fs loc n = fs\<lparr>nodes := (nodes fs)(loc \<mapsto> n)\<rparr>"

text \<open>One segment of a path, from a location.\<close>

definition step :: "location \<Rightarrow> string \<Rightarrow> location" where
  "step loc seg =
     (if seg = [] \<or> seg = ''.'' then loc
      else if seg = ''..'' then butlast loc
      else loc @ [seg])"

definition start :: "filesystem \<Rightarrow> string \<Rightarrow> location" where
  "start fs path = (if isAbsolute path then [] else cwd fs)"

text \<open>
  Resolving the segments of a path from a location: each location that a segment is
  taken from has to be a directory. The location reached need not exist.
\<close>

fun walk :: "filesystem \<Rightarrow> location \<Rightarrow> string list \<Rightarrow> io_error + location" where
  "walk fs loc [] = Inr loc"
| "walk fs loc (seg # rest) =
     (case node_at fs loc of
        None \<Rightarrow> Inl ENOENT
      | Some (File c) \<Rightarrow> Inl ENOTDIR
      | Some Dir \<Rightarrow> walk fs (step loc seg) rest)"

definition resolve :: "filesystem \<Rightarrow> string \<Rightarrow> io_error + location" where
  "resolve fs path =
     (if path = [] then Inl ENOENT else walk fs (start fs path) (split_slash path))"

text \<open>
  Making a directory and the directories that lead to it: every location on the way
  that is missing is made a directory; a regular file on the way is an error.
\<close>

fun mkdirp :: "filesystem \<Rightarrow> location \<Rightarrow> string list \<Rightarrow> io_error + filesystem" where
  "mkdirp fs loc [] =
     (case node_at fs loc of
        Some (File c) \<Rightarrow> Inl EEXIST
      | Some Dir \<Rightarrow> Inr fs
      | None \<Rightarrow> Inr (put_node fs loc Dir))"
| "mkdirp fs loc (seg # rest) =
     (case node_at fs loc of
        Some (File c) \<Rightarrow> Inl ENOTDIR
      | Some Dir \<Rightarrow> mkdirp fs (step loc seg) rest
      | None \<Rightarrow> mkdirp (put_node fs loc Dir) (step loc seg) rest)"

text \<open>\<open>fs.mkdir(path, { recursive: true })\<close>: no error when the directory exists.\<close>

definition fs_mkdir :: "filesystem \<Rightarrow> string \<Rightarrow> js_error + filesystem" where
  "fs_mkdir fs path =
     (case fault fs (Mkdir path) of
        Some e \<Rightarrow> Inl (SystemError e)
      | None \<Rightarrow>
          if path = [] then Inl (SystemError ENOENT)
          else
            (case mkdirp fs (start fs path) (split_slash path) of
               Inl e \<Rightarrow> Inl (SystemError e)
             | Inr fs' \<Rightarrow> Inr fs'))"

text \<open>\<open>fs.appendFile(path, data, 'utf8')\<close>: creates the file when it is absent.\<close>

definition fs_appendFile :: "filesystem \<Rightarrow> string \<Rightarrow> string \<Rightarrow> js_error + filesystem" where
  "fs_appendFile fs path data =
     (case fault fs (AppendFile path) of
        Some e \<Rightarrow> Inl (SystemError e)
      | None \<Rightarrow>
          (case resolve fs path of
             Inl e \<Rightarrow> Inl (SystemError e)
           | Inr loc \<Rightarrow>
               (case node_at fs loc of
                  Some Dir \<Rightarrow> Inl (SystemError EISDIR)
                | Some (File c) \<Rightarrow> Inr (put_node fs loc (File (c @ data)))
                | None \<Rightarrow> Inr (put_node fs loc (File data)))))"

text \<open>\<open>fs.access(path)\<close>: succeeds on a file or a directory that exists.\<close>

definition fs_access :: "filesystem \<Rightarrow> string \<Rightarrow> js_error + unit" where
  "fs_access fs path =
     (case fault fs (Access path) of
        Some e \<Rightarrow> Inl (SystemError e)
      | None \<Rightarrow>
          (case resolve fs path of
             Inl e \<Rightarrow> Inl (SystemError e)
           | Inr loc \<Rightarrow>
               (case node_at fs loc of None \<Rightarrow> Inl (SystemError ENOENT) | Some n \<Rightarrow> Inr ())))"

text \<open>\<open>fs.readFile(path, 'utf8')\<close>.\<close>

definition fs_readFile :: "filesystem \<Rightarrow> string \<Rightarrow> js_error + string" where
  "fs_readFile fs path =
     (case fault fs (ReadFile path) of
        Some e \<Rightarrow> Inl (SystemError e)
      | None \<Rightarrow>
          (case resolve fs path of
             Inl e \<Rightarrow> Inl (SystemError e)
           | Inr loc \<Rightarrow>
               (case node_at fs loc of
                  None \<Rightarrow> Inl (SystemError ENOENT)
                | Some Dir \<Rightarrow> Inl (SystemError EISDIR)
                | Some (File c) \<Rightarrow> Inr c)))"

section \<open>FileManager\<close>

record FileManager =
  baseDir :: string

definition getFullPath :: "FileManager \<Rightarrow> string \<Rightarrow> string" where
  "getFullPath fm filename = path_join [baseDir fm, filename]"

text \<open>
  \<open>appendToFile\<close>: the directory is made first, then \<open>text + '\n'\<close> is appended. An
  error of either call is thrown on to the caller; the result carries the file system as
  the failed call left it.
\<close>

definition appendToFile ::
  "FileManager \<Rightarrow> filesystem \<Rightarrow> string \<Rightarrow> js_value \<Rightarrow> (js_error + unit) \<times> filesystem" where
  "appendToFile fm fs filename text =
     (let fullPath = getFullPath fm filename in
      case fs_mkdir fs (baseDir fm) of
        Inl e \<Rightarrow> (Inl e, fs)
      | Inr fs1 \<Rightarrow>
          (case fs_appendFile fs1 fullPath (to_string text @ [CHR 0x0A]) of
             Inl e \<Rightarrow> (Inl e, fs1)
           | Inr fs2 \<Rightarrow> (Inr (), fs2)))"

text \<open>\<open>fileExists\<close>: any error of \<open>fs.access\<close> means the file does not exist.\<close>

definition fileExists :: "FileManager \<Rightarrow> filesystem \<Rightarrow> string \<Rightarrow> bool" where
  "fileExists fm fs filename =
     (case fs_access fs (getFullPath fm filename) of Inl e \<Rightarrow> False | Inr u \<Rightarrow> True)"

text \<open>\<open>readFile\<close>: \<open>None\<close> is the source's \<open>null\<close>; an error of the read is rethrown.\<close>

definition readFile :: "FileManager \<Rightarrow> filesystem \<Rightarrow> string \<Rightarrow> js_error + string option" where
  "readFile fm fs filename =
     (let fullPath = getFullPath fm filename;
          exists = fileExists fm fs filename
      in if \<not> exists then Inr None
         else (case fs_readFile fs fullPath of
                 Inl e \<Rightarrow> Inl e
               | Inr content \<Rightarrow> Inr (Some content)))"

section \<open>ResponseFormatter\<close>

text \<open>
  The response object: \<open>setHeader\<close> stores a header, \<open>writeHead\<close> sets the status and
  stores each header it is given (over one of the same name), \<open>end\<close> writes the body and
  finishes the response. The program writes the head of a response once, and every
  header under one spelling of its name.
\<close>

record response =
  statusCode :: nat
  headers :: "string \<rightharpoonup> string"
  body :: string
  finished :: bool

definition setHeader :: "response \<Rightarrow> string \<Rightarrow> string \<Rightarrow> response" where
  "setHeader res name v = res\<lparr>headers := (headers res)(name \<mapsto> v)\<rparr>"

definition writeHead :: "response \<Rightarrow> nat \<Rightarrow> (string \<times> string) list \<Rightarrow> response" where
  "writeHead res code hs =
     (foldl (\<lambda>r (name, v). setHeader r name v) res hs)\<lparr>statusCode := code\<rparr>"

definition res_end :: "response \<Rightarrow> string \<Rightarrow> response" where
  "res_end res data = res\<lparr>body := body res @ data, finished := True\<rparr>"

definition sendSuccess :: "response \<Rightarrow> string \<Rightarrow> string \<Rightarrow> response" where
  "sendSuccess res data contentType =
     res_end
       (writeHead res 200
          [(''Content-Type'', contentType), (''Access-Control-Allow-Origin'', ''*'')])
       data"

definition sendError :: "response \<Rightarrow> nat \<Rightarrow> string \<Rightarrow> response" where
  "sendError res code message =
     res_end
       (writeHead res code
          [(''Content-Type'', ''text/plain''), (''Access-Control-Allow-Origin'', ''*'')])
       message"

definition send404 :: "response \<Rightarrow> string \<Rightarrow> response" where
  "send404 res filename =
     sendError res 404
       (''Error 404: File '' @ [CHR 0x27] @ filename @ [CHR 0x27] @ '' not found'')"

text \<open>\<open>sendWriteSuccess\<close> leaves the content type to the default, \<open>text/plain\<close>.\<close>

definition sendWriteSuccess :: "response \<Rightarrow> js_value \<Rightarrow> response" where
  "sendWriteSuccess res text =
     sendSuccess res
       (''Successfully appended: '' @ [CHR 0x22] @ to_string text @ [CHR 0x22])
       ''text/plain''"

section \<open>RequestHandler\<close>

record RequestHandler =
  fileManager :: FileManager

text \<open>A property of an object that has none of its own reads as \<open>undefined\<close>.\<close>

definition get_property :: "(string \<rightharpoonup> js_value) \<Rightarrow> string \<Rightarrow> js_value" where
  "get_property obj name = (case obj name of None \<Rightarrow> JUndefined | Some v \<Rightarrow> v)"

text \<open>
  \<open>handleWriteRequest\<close>. An error thrown by the file manager is caught and answered
  with 500; the file system is returned as the failed call left it.
\<close>

definition handleWriteRequest ::
  "RequestHandler \<Rightarrow> filesystem \<Rightarrow> response \<Rightarrow> (string \<rightharpoonup> js_value)
     \<Rightarrow> response \<times> filesystem" where
  "handleWriteRequest rh fs res queryParams =
     (let text = get_property queryParams ''text'' in
      if \<not> truthy text then
        (sendError res 400
           (''Bad Request: Missing '' @ [CHR 0x22] @ ''text'' @ [CHR 0x22] @ '' parameter''), fs)
      else
        let filename = ''file.txt'' in
        if \<not> isValidFilename (JStr filename) then
          (sendError res 400 ''Invalid filename'', fs)
        else
          (case appendToFile (fileManager rh) fs filename text of
             (Inl e, fs') \<Rightarrow>
               (sendError res 500 ''Internal Server Error: Could not write to file'', fs')
           | (Inr u, fs') \<Rightarrow> (sendWriteSuccess res text, fs')))"

text \<open>
  \<open>filename.trim()\<close> on a value that is not a string throws a type error, which the
  handler catches like any other.
\<close>

fun sanitize_value :: "js_value \<Rightarrow> js_error + string" where
  "sanitize_value (JStr s) = Inr (sanitizeFilename s)"
| "sanitize_value v = Inl TypeError"

text \<open>\<open>handleReadRequest\<close>. A read does not change the file system.\<close>

definition handleReadRequest ::
  "RequestHandler \<Rightarrow> filesystem \<Rightarrow> response \<Rightarrow> js_value \<Rightarrow> response" where
  "handleReadRequest rh fs res filename =
     (if \<not> truthy filename then
        sendError res 400 ''Bad Request: No filename provided''
      else
        (case sanitize_value filename of
           Inl e \<Rightarrow> sendError res 500 ''Internal Server Error: Could not read file''
         | Inr sanitizedFilename \<Rightarrow>
             if \<not> isValidFilename (JStr sanitizedFilename) then
               sendError res 400 ''Bad Request: Invalid filename''
             else
               (case readFile (fileManager rh) fs sanitizedFilename of
                  Inl e \<Rightarrow> sendError res 500 ''Internal Server Error: Could not read file''
                | Inr None \<Rightarrow> send404 res sanitizedFilename
                | Inr (Some content) \<Rightarrow>
                    sendSuccess res content ''text/plain; charset=utf-8'')))"

section \<open>The server's request callback\<close>

text \<open>
  The callback receives the request with its URL already parsed: the path name (a string,
  or \<open>null\<close> when the URL has none) and the query object. The field \<open>http_method\<close>
  is the request's \<open>req.method\<close>.
\<close>

record request =
  http_method :: string
  pathname :: js_value
  query :: "string \<rightharpoonup> js_value"

text \<open>\<open>String.prototype.split\<close> with a separator that is not empty.\<close>

function split_from :: "string \<Rightarrow> string \<Rightarrow> string \<Rightarrow> string list" where
  "split_from sep acc [] = [rev acc]"
| "split_from sep acc (c # cs) =
     (if sep \<noteq> [] \<and> prefix sep (c # cs)
      then rev acc # split_from sep [] (drop (length sep) (c # cs))
      else split_from sep (c # acc) cs)"
  by pat_completeness auto
termination
  by (relation "measure (\<lambda>(sep, acc, s). length s)") (auto simp: Suc_le_eq)

definition split_str :: "string \<Rightarrow> string \<Rightarrow> string list" where
  "split_str s sep = split_from sep [] s"

text \<open>Indexing an array of strings: \<open>undefined\<close> beyond its end.\<close>

definition element_at :: "string list \<Rightarrow> nat \<Rightarrow> js_value" where
  "element_at xs i = (if i < length xs then JStr (xs ! i) else JUndefined)"

definition readFile_prefix :: string where
  "readFile_prefix = ''/COMP4537/labs/3/readFile/''"

definition endpoint_not_found :: string where
  "endpoint_not_found =
     ''Endpoint not found. Available endpoints:'' @ [CHR 0x0A]
     @ ''- /COMP4537/labs/3/writeFile/?text=YourText'' @ [CHR 0x0A]
     @ ''- /COMP4537/labs/3/readFile/file.txt''"

text \<open>
  The routing inside the callback's \<open>try\<close>. \<open>pathname.startsWith\<close> on a path name
  that is not a string throws a type error.
\<close>

definition route ::
  "RequestHandler \<Rightarrow> filesystem \<Rightarrow> request \<Rightarrow> response
     \<Rightarrow> js_error + response \<times> filesystem" where
  "route rh fs req res =
     (if pathname req = JStr ''/COMP4537/labs/3/writeFile/''
         \<or> pathname req = JStr ''/COMP4537/labs/3/writeFile''
      then Inr (handleWriteRequest rh fs res (query req))
      else
        (case pathname req of
           JStr p \<Rightarrow>
             if startsWith p readFile_prefix then
               (let filename = element_at (split_str p readFile_prefix) 1
                in Inr (handleReadRequest rh fs res filename, fs))
             else Inr (sendError res 404 endpoint_not_found, fs)
         | v \<Rightarrow> Inl TypeError))"

text \<open>
  The callback: the two CORS headers are set first; an \<open>OPTIONS\<close> request is answered
  at once; an error that escapes the routing is answered with a generic 500.
\<close>

definition server_callback ::
  "RequestHandler \<Rightarrow> filesystem \<Rightarrow> request \<Rightarrow> response \<Rightarrow> response \<times> filesystem" where
  "server_callback rh fs req res =
     (let res1 = setHeader res ''Access-Control-Allow-Origin'' ''*'';
          res2 = setHeader res1 ''Access-Control-Allow-Methods'' ''GET, POST, OPTIONS''
      in if http_method req = ''OPTIONS'' then (res_end (writeHead res2 204 []) [], fs)
         else
           (case route rh fs req res2 of
              Inl e \<Rightarrow> (sendError res2 500 ''Internal Server Error'', fs)
            | Inr r \<Rightarrow> r))"

text \<open>A response that nothing has been written to yet.\<close>

definition new_response :: response where
  "new_response = \<lparr>statusCode = 200, headers = Map.empty, body = [], finished = False\<rparr>"

section \<open>Notions used in the statements\<close>

text \<open>
  The components of a path: its segments between slashes, without the empty ones (a
  leading, a trailing or a doubled slash) and without \<open>.\<close>.
\<close>

definition path_segments :: "string \<Rightarrow> string list" where
  "path_segments path = filter (\<lambda>seg. seg \<noteq> [] \<and> seg \<noteq> ''.'') (split_slash path)"

text \<open>A segment that names an entry: not empty, not \<open>.\<close>, and without a slash.\<close>

definition plain_segment :: "string \<Rightarrow> bool" where
  "plain_segment seg = (seg \<noteq> [] \<and> seg \<noteq> ''.'' \<and> CHR ''/'' \<notin> set seg)"

text \<open>
  The locations a path passes through, in order, and the location it names. Both are
  read off the path and the working directory alone.
\<close>

fun way :: "location \<Rightarrow> string list \<Rightarrow> location list" where
  "way loc [] = [loc]"
| "way loc (seg # rest) = loc # way (step loc seg) rest"

definition way_of :: "filesystem \<Rightarrow> string \<Rightarrow> location list" where
  "way_of fs path = way (start fs path) (split_slash path)"

definition locate :: "filesystem \<Rightarrow> string \<Rightarrow> location" where
  "locate fs path = foldl step (start fs path) (split_slash path)"

text \<open>The text of the regular file at a location, if there is one.\<close>

definition file_at :: "filesystem \<Rightarrow> location \<Rightarrow> string option" where
  "file_at fs loc = (case node_at fs loc of Some (File c) \<Rightarrow> Some c | _ \<Rightarrow> None)"

text \<open>
  A directory can be made at a path when the path is not empty and no regular file lies
  on its way.
\<close>

definition can_make_dir :: "filesystem \<Rightarrow> string \<Rightarrow> bool" where
  "can_make_dir fs path =
     (path \<noteq> [] \<and> list_all (\<lambda>loc. file_at fs loc = None) (way_of fs path))"

text \<open>
  A concrete installation, for the examples: nothing stored, not even the storage
  directory, and no call refused.
\<close>

definition demo_fm :: FileManager where
  "demo_fm = \<lparr>baseDir = ''/srv/files''\<rparr>"

definition demo_rh :: RequestHandler where
  "demo_rh = \<lparr>fileManager = demo_fm\<rparr>"

definition empty_fs :: filesystem where
  "empty_fs = \<lparr>nodes = Map.empty, cwd = [], fault = (\<lambda>c. None)\<rparr>"

section \<open>Facts about the filename policy\<close>

lemma charCode_literals:
  "charCode CHR ''_'' = 95" "charCode CHR ''-'' = 45" "charCode CHR ''.'' = 46"
  by (simp_all add: charCode_def)

lemma valid_class_not_white_space: "in_valid_class c \<Longrightarrow> \<not> is_white_space c"
  by (auto simp: in_valid_class_def is_white_space_def Let_def charCode_literals)

lemma trim_id:
  assumes "list_all in_valid_class s"
  shows "trim s = s"
proof (cases s)
  case Nil
  then show ?thesis by (simp add: trim_def)
next
  case (Cons c cs)
  have nw: "\<forall>x\<in>set s. \<not> is_white_space x"
    using assms valid_class_not_white_space by (auto simp: list_all_iff)
  have 1: "dropWhile is_white_space s = s"
    using nw Cons by simp
  have "rev s \<noteq> []" using Cons by simp
  then obtain d ds where r: "rev s = d # ds" by (cases "rev s") auto
  have "d \<in> set s" using r by (metis list.set_intros(1) set_rev)
  then have 2: "dropWhile is_white_space (rev s) = rev s"
    using nw r by simp
  show ?thesis by (simp add: trim_def 1 2)
qed

lemma isValidFilename_trim:
  "isValidFilename (JStr f) \<Longrightarrow> sanitizeFilename f = f"
  by (auto simp: sanitizeFilename_def validPattern_test_def intro: trim_id split: if_splits)

lemma isValidFilename_file_txt: "isValidFilename (JStr ''file.txt'')"
  by (simp add: endsWith_def validPattern_test_def in_valid_class_def charCode_def)

lemma isValidFilename_dot_txt: "isValidFilename (JStr ''.txt'')"
  by (simp add: endsWith_def validPattern_test_def in_valid_class_def charCode_def)

lemma trim_Nil [simp]: "trim [] = []"
  by (simp add: trim_def)

lemma isValidFilename_iff:
  "isValidFilename (JStr g) \<longleftrightarrow>
     \<not> (g = [] \<or> str_includes g ''..'' \<or> str_includes g ''/'' \<or> str_includes g [CHR 0x5C]
        \<or> \<not> endsWith g ''.txt'' \<or> \<not> list_all in_valid_class g)"
  by (auto simp: validPattern_test_def)

lemma str_includes_single: "str_includes s [c] \<longleftrightarrow> c \<in> set s"
  by (induction s) auto

lemma endsWith_length: "endsWith s pat \<Longrightarrow> length pat \<le> length s"
  by (simp add: endsWith_def)

lemma isValidFilename_plain:
  assumes "isValidFilename (JStr f)"
  shows "plain_segment f" and "f \<noteq> ''..''"
proof -
  have e: "endsWith f ''.txt''" and s: "\<not> str_includes f ''/''"
    using assms by (auto split: if_splits)
  have "4 \<le> length f" using endsWith_length [OF e] by simp
  then have "f \<noteq> []" "f \<noteq> ''.''" "f \<noteq> ''..''" by auto
  moreover have "CHR ''/'' \<notin> set f" using s by (simp add: str_includes_single)
  ultimately show "plain_segment f" and "f \<noteq> ''..''" by (simp_all add: plain_segment_def)
qed

section \<open>Facts about paths\<close>

lemma split_slash_not_Nil [simp]: "split_slash s \<noteq> []"
  by (induction s) (auto split: list.splits)

lemma split_slash_no_slash: "CHR ''/'' \<notin> set s \<Longrightarrow> split_slash s = [s]"
  by (induction s) auto

lemma split_slash_append:
  "split_slash (a @ CHR ''/'' # b) = split_slash a @ split_slash b"
proof (induction a)
  case Nil
  show ?case by simp
next
  case (Cons c cs)
  obtain s ss where s: "split_slash cs = s # ss"
    by (cases "split_slash cs") auto
  show ?case using Cons s by simp
qed

lemma split_slash_segments: "seg \<in> set (split_slash s) \<Longrightarrow> CHR ''/'' \<notin> set seg"
  by (induction s arbitrary: seg) (auto split: if_splits list.splits)

lemma norm_step_plain:
  assumes "\<forall>x\<in>set res. plain_segment x" and "CHR ''/'' \<notin> set seg"
  shows "\<forall>x\<in>set (norm_step allow res seg). plain_segment x"
  using assms by (auto simp: norm_step_def plain_segment_def dest: in_set_butlastD)

lemma foldl_norm_step_plain:
  assumes "\<forall>x\<in>set res. plain_segment x" and "\<forall>seg\<in>set segs. CHR ''/'' \<notin> set seg"
  shows "\<forall>x\<in>set (foldl (norm_step allow) res segs). plain_segment x"
  using assms
proof (induction segs arbitrary: res)
  case Nil
  then show ?case by simp
next
  case (Cons s segs)
  have "\<forall>x\<in>set (norm_step allow res s). plain_segment x"
    using Cons.prems by (intro norm_step_plain) auto
  then show ?case using Cons by simp
qed

lemma normalizeString_plain:
  "x \<in> set (normalizeString path allow) \<Longrightarrow> plain_segment x"
  using foldl_norm_step_plain [of "[]" "split_slash path" allow] split_slash_segments
  by (auto simp: normalizeString_def)

lemma split_slash_join_with:
  "xs \<noteq> [] \<Longrightarrow> \<forall>x\<in>set xs. CHR ''/'' \<notin> set x \<Longrightarrow> split_slash (join_with ''/'' xs) = xs"
proof (induction "''/''" xs rule: join_with.induct)
  case 1
  then show ?case by simp
next
  case (2 x)
  then show ?case by (simp add: split_slash_no_slash)
next
  case (3 x y ys)
  then show ?case by (simp add: split_slash_append split_slash_no_slash)
qed

lemma join_with_Nil_iff:
  "\<forall>x\<in>set xs. x \<noteq> [] \<Longrightarrow> join_with sep xs = [] \<longleftrightarrow> xs = []"
  by (induction sep xs rule: join_with.induct) auto

lemma filter_plain: "\<forall>x\<in>set xs. plain_segment x \<Longrightarrow>
    filter (\<lambda>seg. seg \<noteq> [] \<and> seg \<noteq> ''.'') xs = xs"
  by (induction xs) (auto simp: plain_segment_def)

lemma path_normalize_render:
  assumes "path \<noteq> []" and "N = normalizeString path (\<not> isAbsolute path)"
  shows "path_normalize path =
           (if N = [] then
              (if isAbsolute path then ''/'' else if last path = CHR ''/'' then ''./'' else ''.'')
            else (if isAbsolute path then ''/'' else []) @ join_with ''/'' N
                 @ (if last path = CHR ''/'' then ''/'' else []))"
proof -
  have "\<forall>x\<in>set N. x \<noteq> []"
    unfolding assms(2) using normalizeString_plain by (auto simp: plain_segment_def)
  then have "join_with ''/'' N = [] \<longleftrightarrow> N = []" by (rule join_with_Nil_iff)
  then show ?thesis
    using assms(1) unfolding path_normalize_def Let_def assms(2) by simp
qed

lemma path_segments_render:
  assumes plain: "\<forall>x\<in>set N. plain_segment x" and N: "N \<noteq> []"
      and pre: "pre = [] \<or> pre = ''/''" and post: "post = [] \<or> post = ''/''"
  shows "path_segments (pre @ join_with ''/'' N @ post) = N"
proof -
  have ns: "\<forall>x\<in>set N. CHR ''/'' \<notin> set x" using plain by (auto simp: plain_segment_def)
  have sp: "split_slash (join_with ''/'' N) = N"
    by (rule split_slash_join_with [OF N ns])
  have sp2: "split_slash (join_with ''/'' N @ ''/'') = N @ [[]]"
    using split_slash_append [of "join_with ''/'' N" "[]"] sp by simp
  show ?thesis
    using pre post sp sp2 filter_plain [OF plain] by (auto simp: path_segments_def)
qed

lemma path_segments_normalize:
  "path_segments (path_normalize path) = normalizeString path (\<not> isAbsolute path)"
proof (cases "path = []")
  case True
  then show ?thesis
    by (simp add: path_normalize_def path_segments_def normalizeString_def norm_step_def)
next
  case False
  define N where "N = normalizeString path (\<not> isAbsolute path)"
  have plain: "\<forall>x\<in>set N. plain_segment x"
    unfolding N_def using normalizeString_plain by blast
  note r = path_normalize_render [OF False N_def]
  show ?thesis
  proof (cases "N = []")
    case True
    then show ?thesis unfolding r N_def [symmetric] by (simp add: path_segments_def)
  next
    case N: False
    have "path_segments ((if isAbsolute path then ''/'' else []) @ join_with ''/'' N
                 @ (if last path = CHR ''/'' then ''/'' else [])) = N"
      by (rule path_segments_render [OF plain N]) simp_all
    then show ?thesis unfolding r N_def [symmetric] using N by simp
  qed
qed

lemma isAbsolute_normalize: "isAbsolute (path_normalize path) = isAbsolute path"
proof (cases "path = []")
  case True
  then show ?thesis by (simp add: path_normalize_def isAbsolute_def)
next
  case False
  define N where "N = normalizeString path (\<not> isAbsolute path)"
  note r = path_normalize_render [OF False N_def]
  show ?thesis
  proof (cases N)
    case Nil
    then show ?thesis unfolding r by (simp add: isAbsolute_def)
  next
    case (Cons n ns)
    have "plain_segment n" using normalizeString_plain [of n path "\<not> isAbsolute path"] Cons
      unfolding N_def by simp
    then obtain c cs where n: "n = c # cs" and c: "c \<noteq> CHR ''/''"
      by (cases n) (auto simp: plain_segment_def)
    have "\<exists>rest. join_with ''/'' N = c # rest"
      unfolding Cons n by (cases ns) auto
    then obtain rest where J: "join_with ''/'' N = c # rest" by blast
    show ?thesis unfolding r using Cons J c by (simp add: isAbsolute_def)
  qed
qed

lemma normalizeString_snoc:
  assumes "plain_segment f" and "f \<noteq> ''..''"
  shows "normalizeString (base @ CHR ''/'' # f) allow = normalizeString base allow @ [f]"
  using assms
  by (simp add: normalizeString_def split_slash_append split_slash_no_slash plain_segment_def
                norm_step_def)

lemma demo_full_path: "getFullPath demo_fm ''file.txt'' = ''/srv/files/file.txt''"
  by (simp add: getFullPath_def demo_fm_def path_join_def path_normalize_def isAbsolute_def
                normalizeString_def norm_step_def)

section \<open>Facts about the response formatter\<close>

lemma statusCode_sendError [simp]: "statusCode (sendError res code msg) = code"
  by (simp add: sendError_def res_end_def writeHead_def)

lemma statusCode_sendSuccess [simp]: "statusCode (sendSuccess res d ct) = 200"
  by (simp add: sendSuccess_def res_end_def writeHead_def)

lemma body_sendError [simp]: "body (sendError res code msg) = body res @ msg"
  by (simp add: sendError_def res_end_def writeHead_def setHeader_def)

lemma body_sendSuccess [simp]: "body (sendSuccess res d ct) = body res @ d"
  by (simp add: sendSuccess_def res_end_def writeHead_def setHeader_def)

lemma finished_sendError [simp]: "finished (sendError res code msg)"
  by (simp add: sendError_def res_end_def)

lemma finished_sendSuccess [simp]: "finished (sendSuccess res d ct)"
  by (simp add: sendSuccess_def res_end_def)

lemma cors_sendError [simp]:
  "headers (sendError res code msg) ''Access-Control-Allow-Origin'' = Some ''*''"
  by (simp add: sendError_def res_end_def writeHead_def setHeader_def)

lemma cors_sendSuccess [simp]:
  "headers (sendSuccess res d ct) ''Access-Control-Allow-Origin'' = Some ''*''"
  by (simp add: sendSuccess_def res_end_def writeHead_def setHeader_def)

lemma statusCode_send404 [simp]: "statusCode (send404 res f) = 404"
  by (simp add: send404_def)

section \<open>Facts about the file system\<close>

lemma node_at_put_node:
  "loc \<noteq> [] \<Longrightarrow> node_at (put_node fs loc n) x = (if x = loc then Some n else node_at fs x)"
  by (simp add: node_at_def put_node_def)

lemma node_at_None_not_root: "node_at fs loc = None \<Longrightarrow> loc \<noteq> []"
  by (auto simp: node_at_def)

lemma put_node_fields [simp]:
  "cwd (put_node fs loc n) = cwd fs" "fault (put_node fs loc n) = fault fs"
  by (simp_all add: put_node_def)

lemma walk_lexical: "walk fs loc segs = Inr l \<Longrightarrow> l = foldl step loc segs"
  by (induction segs arbitrary: loc) (auto split: option.splits node.splits)

lemma walk_append:
  "walk fs loc (xs @ ys) = (case walk fs loc xs of Inl e \<Rightarrow> Inl e | Inr l \<Rightarrow> walk fs l ys)"
  by (induction xs arbitrary: loc) (auto split: option.splits node.splits)

lemma walk_snoc_Inr:
  "walk fs loc (xs @ [x]) = Inr l \<longleftrightarrow>
     (\<exists>l'. walk fs loc xs = Inr l' \<and> node_at fs l' = Some Dir \<and> l = step l' x)"
  by (auto simp: walk_append split: sum.splits option.splits node.splits)

lemma walk_mono:
  assumes "walk fs loc segs = Inr l"
      and "\<And>x. node_at fs x = Some Dir \<Longrightarrow> node_at fs' x = Some Dir"
  shows "walk fs' loc segs = Inr l"
  using assms
  by (induction segs arbitrary: loc) (auto split: option.splits node.splits)

lemma way_not_Nil [simp]: "way loc segs \<noteq> []"
  by (cases segs) auto

lemma last_way: "last (way loc segs) = foldl step loc segs"
  by (induction segs arbitrary: loc) auto

lemma walk_way:
  assumes "\<forall>x\<in>set (way loc segs). node_at fs x = Some Dir"
  shows "walk fs loc segs = Inr (foldl step loc segs)"
  using assms by (induction segs arbitrary: loc) auto

lemma mkdirp_effect:
  assumes "mkdirp fs loc segs = Inr fs1"
  shows "\<forall>x\<in>set (way loc segs). node_at fs1 x = Some Dir"
    and "node_at fs x = Some n \<Longrightarrow> node_at fs1 x = Some n"
    and "node_at fs1 x \<noteq> node_at fs x \<Longrightarrow>
           node_at fs x = None \<and> node_at fs1 x = Some Dir \<and> x \<in> set (way loc segs)"
    and "cwd fs1 = cwd fs" and "fault fs1 = fault fs"
  using assms
proof (induction segs arbitrary: fs loc x n)
  case Nil
  {
    case 1 then show ?case
      by (auto simp: node_at_put_node node_at_None_not_root split: option.splits node.splits)
  next
    case 2 then show ?case
      by (auto simp: node_at_put_node node_at_None_not_root
               split: option.splits node.splits if_splits)
  next
    case 3 then show ?case
      by (auto simp: node_at_put_node node_at_None_not_root
               split: option.splits node.splits if_splits)
  next
    case 4 then show ?case by (auto split: option.splits node.splits)
  next
    case 5 then show ?case by (auto split: option.splits node.splits)
  }
next
  case (Cons seg rest)
  {
    fix fs loc
    assume p: "mkdirp fs loc (seg # rest) = Inr fs1"
    have "\<exists>fs'. mkdirp fs' (step loc seg) rest = Inr fs1 \<and> node_at fs' loc = Some Dir
             \<and> cwd fs' = cwd fs \<and> fault fs' = fault fs
             \<and> (\<forall>x. x \<noteq> loc \<longrightarrow> node_at fs' x = node_at fs x)
             \<and> (node_at fs loc = None \<or> node_at fs loc = Some Dir)"
    proof (cases "node_at fs loc")
      case None
      then have ne: "loc \<noteq> []" by (rule node_at_None_not_root)
      show ?thesis
        using p None
        by (intro exI [of _ "put_node fs loc Dir"]) (simp add: node_at_put_node [OF ne])
    next
      case (Some m)
      then show ?thesis using p by (cases m) auto
    qed
  } note red = this
  {
    case 1
    from red [OF 1] obtain fs' where f: "mkdirp fs' (step loc seg) rest = Inr fs1"
      and d: "node_at fs' loc = Some Dir" by blast
    have "node_at fs1 loc = Some Dir" using Cons.IH(2) [OF d f] .
    moreover have "\<forall>x\<in>set (way (step loc seg) rest). node_at fs1 x = Some Dir"
      by (rule Cons.IH(1) [OF f])
    ultimately show ?case by simp
  next
    case 2
    from red [OF 2(2)] obtain fs' where f: "mkdirp fs' (step loc seg) rest = Inr fs1"
      and d: "node_at fs' loc = Some Dir"
      and o: "\<forall>x. x \<noteq> loc \<longrightarrow> node_at fs' x = node_at fs x"
      and c: "node_at fs loc = None \<or> node_at fs loc = Some Dir" by blast
    have "node_at fs' x = Some n"
    proof (cases "x = loc")
      case True then show ?thesis using 2(1) c d by auto
    next
      case False then show ?thesis using 2(1) o by simp
    qed
    then show ?case by (rule Cons.IH(2) [OF _ f])
  next
    case 3
    from red [OF 3(2)] obtain fs' where f: "mkdirp fs' (step loc seg) rest = Inr fs1"
      and d: "node_at fs' loc = Some Dir"
      and o: "\<forall>x. x \<noteq> loc \<longrightarrow> node_at fs' x = node_at fs x"
      and c: "node_at fs loc = None \<or> node_at fs loc = Some Dir" by blast
    have l: "node_at fs1 loc = Some Dir" using Cons.IH(2) [OF d f] .
    show ?case
    proof (cases "x = loc")
      case True
      then show ?thesis using 3(1) l c by auto
    next
      case False
      then have "node_at fs' x = node_at fs x" using o by simp
      with 3(1) have "node_at fs1 x \<noteq> node_at fs' x" by simp
      from Cons.IH(3) [OF this f] show ?thesis using False o by simp
    qed
  next
    case 4
    from red [OF 4] obtain fs' where f: "mkdirp fs' (step loc seg) rest = Inr fs1"
      and e: "cwd fs' = cwd fs" by blast
    show ?case using Cons.IH(4) [OF f] e by simp
  next
    case 5
    from red [OF 5] obtain fs' where f: "mkdirp fs' (step loc seg) rest = Inr fs1"
      and e: "fault fs' = fault fs" by blast
    show ?case using Cons.IH(5) [OF f] e by simp
  }
qed

lemma mkdirp_succeeds:
  assumes "list_all (\<lambda>x. file_at fs x = None) (way loc segs)"
  shows "\<exists>fs1. mkdirp fs loc segs = Inr fs1"
  using assms
proof (induction segs arbitrary: fs loc)
  case Nil
  then show ?case by (auto simp: file_at_def split: option.splits node.splits)
next
  case (Cons seg rest)
  show ?case
  proof (cases "node_at fs loc")
    case None
    let ?fs' = "put_node fs loc Dir"
    have ne: "loc \<noteq> []" using None by (rule node_at_None_not_root)
    have "list_all (\<lambda>x. file_at ?fs' x = None) (way (step loc seg) rest)"
      using Cons.prems by (auto simp: list_all_iff file_at_def node_at_put_node [OF ne])
    from Cons.IH [OF this] show ?thesis using None by simp
  next
    case (Some n)
    then show ?thesis using Cons by (cases n) (auto simp: file_at_def)
  qed
qed

lemma step_plain: "plain_segment seg \<Longrightarrow> seg \<noteq> ''..'' \<Longrightarrow> step loc seg = loc @ [seg]"
  by (simp add: step_def plain_segment_def)

lemma foldl_norm_step_no_dotdot:
  assumes "''..'' \<notin> set res"
  shows "''..'' \<notin> set (foldl (norm_step False) res segs)"
  using assms
proof (induction segs arbitrary: res)
  case Nil
  then show ?case by simp
next
  case (Cons s segs)
  have "''..'' \<notin> set (norm_step False res s)"
    using Cons.prems by (auto simp: norm_step_def dest: in_set_butlastD)
  then show ?case using Cons.IH by simp
qed

lemma walk_norm_step:
  assumes w: "walk fs s res = Inr l'" and d: "node_at fs l' = Some Dir"
      and pl: "\<forall>x\<in>set res. plain_segment x"
      and ab: "allow \<or> (s = [] \<and> ''..'' \<notin> set res)"
  shows "walk fs s (norm_step allow res seg) = Inr (step l' seg)"
proof -
  consider (triv) "seg = [] \<or> seg = ''.''"
    | (pop) "seg = ''..''" "res \<noteq> []" "last res \<noteq> ''..''"
    | (keep) "seg = ''..''" "res = [] \<or> last res = ''..''" "allow"
    | (root) "seg = ''..''" "res = [] \<or> last res = ''..''" "\<not> allow"
    | (name) "seg \<noteq> []" "seg \<noteq> ''.''" "seg \<noteq> ''..''"
    by blast
  then show ?thesis
  proof cases
    case triv
    then show ?thesis using w by (auto simp: norm_step_def step_def)
  next
    case pop
    obtain r n where res: "res = r @ [n]" using pop(2) by (metis rev_exhaust)
    have n: "plain_segment n" "n \<noteq> ''..''" using pl pop(3) res by auto
    from w obtain l'' where r: "walk fs s r = Inr l''" and l': "l' = step l'' n"
      unfolding res walk_snoc_Inr by blast
    have "step l' seg = l''" using pop(1) l' step_plain [OF n] by (simp add: step_def)
    moreover have "norm_step allow res seg = r" using pop res by (simp add: norm_step_def)
    ultimately show ?thesis using r by simp
  next
    case keep
    have "norm_step allow res seg = res @ [''..'']" using keep by (auto simp: norm_step_def)
    then show ?thesis using w d keep(1) by (simp add: walk_snoc_Inr)
  next
    case root
    with ab have s: "s = []" and nd: "''..'' \<notin> set res" by auto
    have "res = []" using root(2) nd by (cases res rule: rev_cases) auto
    then have "l' = []" using w s by simp
    moreover have "norm_step allow res seg = res" using root by (auto simp: norm_step_def)
    ultimately show ?thesis using w root(1) by (simp add: step_def)
  next
    case name
    have "norm_step allow res seg = res @ [seg]" using name by (simp add: norm_step_def)
    then show ?thesis using w d by (simp add: walk_snoc_Inr)
  qed
qed

lemma walk_normalizeString:
  assumes "walk fs s segs = Inr l" and "allow \<or> s = []"
      and "\<forall>seg\<in>set segs. CHR ''/'' \<notin> set seg"
  shows "walk fs s (foldl (norm_step allow) [] segs) = Inr l"
  using assms
proof (induction segs arbitrary: l rule: rev_induct)
  case Nil
  then show ?case by simp
next
  case (snoc x xs)
  from snoc.prems(1) obtain l' where w: "walk fs s xs = Inr l'"
    and d: "node_at fs l' = Some Dir" and l: "l = step l' x"
    unfolding walk_snoc_Inr by blast
  let ?res = "foldl (norm_step allow) [] xs"
  have ih: "walk fs s ?res = Inr l'" using snoc.IH [OF w snoc.prems(2)] snoc.prems(3) by simp
  have pl: "\<forall>y\<in>set ?res. plain_segment y"
    using foldl_norm_step_plain [of "[]" xs allow] snoc.prems(3) by simp
  have ab: "allow \<or> (s = [] \<and> ''..'' \<notin> set ?res)"
    using snoc.prems(2) foldl_norm_step_no_dotdot [of "[]" xs] by (cases allow) auto
  show ?case using walk_norm_step [OF ih d pl ab, of x] l by simp
qed

lemma walk_first_dir:
  "walk fs s (seg # rest) = Inr l \<Longrightarrow> node_at fs s = Some Dir"
  by (auto split: option.splits node.splits)

lemma start_normalize: "start fs (path_normalize path) = start fs path"
  by (simp add: start_def isAbsolute_normalize)

lemma path_normalize_not_Nil: "path_normalize path \<noteq> []"
proof (cases "path = []")
  case True
  then show ?thesis by (simp add: path_normalize_def)
next
  case False
  define N where "N = normalizeString path (\<not> isAbsolute path)"
  have "\<forall>x\<in>set N. x \<noteq> []"
    unfolding N_def using normalizeString_plain by (auto simp: plain_segment_def)
  then have "join_with ''/'' N = [] \<longleftrightarrow> N = []" by (rule join_with_Nil_iff)
  then show ?thesis unfolding path_normalize_render [OF False N_def] by auto
qed

lemma resolve_normalize:
  assumes ne: "path \<noteq> []" and nt: "last path \<noteq> CHR ''/''"
      and w: "walk fs (start fs path) (split_slash path) = Inr l"
  shows "resolve fs (path_normalize path) = Inr l"
proof -
  define N where "N = normalizeString path (\<not> isAbsolute path)"
  note r = path_normalize_render [OF ne N_def]
  have plain: "\<forall>x\<in>set N. plain_segment x"
    unfolding N_def using normalizeString_plain by blast
  then have ns: "\<forall>x\<in>set N. CHR ''/'' \<notin> set x" by (auto simp: plain_segment_def)
  have ab: "(\<not> isAbsolute path) \<or> start fs path = []" by (auto simp: start_def)
  have wN: "walk fs (start fs path) N = Inr l"
    unfolding N_def normalizeString_def
    using walk_normalizeString [OF w ab] split_slash_segments by blast
  obtain seg rest where sp: "split_slash path = seg # rest"
    by (cases "split_slash path") auto
  have d: "node_at fs (start fs path) = Some Dir"
    using w unfolding sp by (rule walk_first_dir)
  have "walk fs (start fs path) (split_slash (path_normalize path)) = Inr l"
  proof (cases "N = []")
    case True
    then have "l = start fs path" using wN by simp
    then show ?thesis unfolding r using True nt d by (auto simp: step_def)
  next
    case False
    have sp: "split_slash (join_with ''/'' N) = N"
      by (rule split_slash_join_with [OF False ns])
    have "split_slash (CHR ''/'' # join_with ''/'' N) = [] # N"
      using sp by simp
    then show ?thesis unfolding r using False nt sp wN d by (auto simp: step_def)
  qed
  then show ?thesis
    by (simp add: resolve_def path_normalize_not_Nil start_normalize)
qed

lemma locate_way: "locate fs path \<in> set (way_of fs path)"
  unfolding locate_def way_of_def using last_way [symmetric] last_in_set way_not_Nil
  by metis

lemma resolve_lexical: "resolve fs path = Inr loc \<Longrightarrow> loc = locate fs path"
  by (auto simp: resolve_def locate_def dest: walk_lexical split: if_splits)

lemma plain_segment_last: "plain_segment f \<Longrightarrow> last f \<noteq> CHR ''/''"
  by (metis last_in_set plain_segment_def)

lemma getFullPath_plain:
  assumes "plain_segment f" and "baseDir fm \<noteq> []"
  shows "getFullPath fm f = path_normalize (baseDir fm @ CHR ''/'' # f)"
  using assms by (simp add: getFullPath_def path_join_def plain_segment_def)

lemma resolve_full_path:
  assumes pl: "plain_segment f" and nd: "f \<noteq> ''..''" and ne: "baseDir fm \<noteq> []"
      and dirs: "\<forall>x\<in>set (way_of fs (baseDir fm)). node_at fs x = Some Dir"
  shows "resolve fs (getFullPath fm f) = Inr (locate fs (baseDir fm) @ [f])"
proof -
  let ?b = "baseDir fm"
  let ?j = "?b @ CHR ''/'' # f"
  have fs: "CHR ''/'' \<notin> set f" using pl by (simp add: plain_segment_def)
  have st: "start fs ?j = start fs ?b"
    using ne by (cases ?b) (auto simp: start_def isAbsolute_def)
  have sp: "split_slash ?j = split_slash ?b @ [f]"
    by (simp add: split_slash_append split_slash_no_slash [OF fs])
  have wb: "walk fs (start fs ?b) (split_slash ?b) = Inr (locate fs ?b)"
    unfolding locate_def by (rule walk_way) (use dirs in \<open>simp add: way_of_def\<close>)
  have d: "node_at fs (locate fs ?b) = Some Dir" using dirs locate_way by blast
  have "walk fs (start fs ?j) (split_slash ?j) = Inr (locate fs ?b @ [f])"
    unfolding st sp walk_snoc_Inr using wb d step_plain [OF pl nd] by simp
  moreover have "last ?j \<noteq> CHR ''/''" using plain_segment_last [OF pl] pl
    by (simp add: plain_segment_def)
  ultimately have "resolve fs (path_normalize ?j) = Inr (locate fs ?b @ [f])"
    by (intro resolve_normalize) simp_all
  then show ?thesis by (simp add: getFullPath_plain [OF pl ne])
qed

lemma locate_full_path:
  assumes pl: "plain_segment f" and nd: "f \<noteq> ''..''" and ne: "baseDir fm \<noteq> []"
  shows "locate fs (getFullPath fm f) = locate fs (baseDir fm) @ [f]"
proof -
  define fs' where "fs' = fs\<lparr>nodes := (\<lambda>x. Some Dir)\<rparr>"
  have c: "locate fs' p = locate fs p" for p by (simp add: fs'_def locate_def start_def)
  have "\<forall>x\<in>set (way_of fs' (baseDir fm)). node_at fs' x = Some Dir"
    by (simp add: fs'_def node_at_def)
  from resolve_full_path [OF pl nd ne this]
  have "locate fs' (baseDir fm) @ [f] = locate fs' (getFullPath fm f)"
    by (rule resolve_lexical)
  then show ?thesis by (simp add: c)
qed

lemma fs_mkdir_cases:
  assumes "fs_mkdir fs dir = Inr fs1"
  shows "dir \<noteq> [] \<and> mkdirp fs (start fs dir) (split_slash dir) = Inr fs1"
  using assms by (auto simp: fs_mkdir_def split: option.splits if_splits sum.splits)

lemma fs_mkdir_frame:
  assumes "fs_mkdir fs dir = Inr fs1"
  shows "file_at fs1 x = file_at fs x"
    and "node_at fs x = Some n \<Longrightarrow> node_at fs1 x = Some n"
    and "node_at fs1 x \<noteq> node_at fs x \<Longrightarrow>
           node_at fs x = None \<and> node_at fs1 x = Some Dir \<and> x \<in> set (way_of fs dir)"
    and "cwd fs1 = cwd fs" and "fault fs1 = fault fs"
    and "\<forall>x\<in>set (way_of fs dir). node_at fs1 x = Some Dir"
proof -
  note m = fs_mkdir_cases [OF assms, THEN conjunct2]
  show 3: "node_at fs1 x \<noteq> node_at fs x \<Longrightarrow>
           node_at fs x = None \<and> node_at fs1 x = Some Dir \<and> x \<in> set (way_of fs dir)" for x
    unfolding way_of_def by (rule mkdirp_effect(3) [OF m])
  show "file_at fs1 x = file_at fs x"
    using 3 [of x] by (cases "node_at fs1 x = node_at fs x") (auto simp: file_at_def)
  show "node_at fs x = Some n \<Longrightarrow> node_at fs1 x = Some n"
    by (rule mkdirp_effect(2) [OF m])
  show "cwd fs1 = cwd fs" by (rule mkdirp_effect(4) [OF m])
  show "fault fs1 = fault fs" by (rule mkdirp_effect(5) [OF m])
  show "\<forall>x\<in>set (way_of fs dir). node_at fs1 x = Some Dir"
    unfolding way_of_def by (rule mkdirp_effect(1) [OF m])
qed

lemma fs_mkdir_ok:
  assumes "fault fs (Mkdir dir) = None" and "can_make_dir fs dir"
  shows "\<exists>fs1. fs_mkdir fs dir = Inr fs1"
proof -
  have "list_all (\<lambda>x. file_at fs x = None) (way (start fs dir) (split_slash dir))"
    using assms(2) by (simp add: can_make_dir_def way_of_def)
  from mkdirp_succeeds [OF this] obtain fs1
    where "mkdirp fs (start fs dir) (split_slash dir) = Inr fs1" by blast
  then show ?thesis using assms by (simp add: fs_mkdir_def can_make_dir_def)
qed

lemma fs_appendFile_cases:
  assumes "fs_appendFile fs1 path data = Inr fs2"
  shows "\<exists>c. locate fs1 path \<noteq> [] \<and> fs2 = put_node fs1 (locate fs1 path) (File c)"
proof -
  from assms obtain loc where r: "resolve fs1 path = Inr loc"
    by (auto simp: fs_appendFile_def split: option.splits sum.splits)
  have l: "loc = locate fs1 path" by (rule resolve_lexical [OF r])
  have "node_at fs1 loc \<noteq> Some Dir"
    using assms r by (auto simp: fs_appendFile_def split: option.splits)
  then have "loc \<noteq> []" by (auto simp: node_at_def)
  then show ?thesis
    using assms r l by (auto simp: fs_appendFile_def split: option.splits node.splits)
qed

lemma fs_appendFile_frame:
  assumes "fs_appendFile fs1 path data = Inr fs2"
  shows "x \<noteq> locate fs1 path \<Longrightarrow> node_at fs2 x = node_at fs1 x"
    and "cwd fs2 = cwd fs1" and "fault fs2 = fault fs1"
  using fs_appendFile_cases [OF assms] by (auto simp: node_at_put_node)

lemma locate_cwd: "cwd fs' = cwd fs \<Longrightarrow> locate fs' p = locate fs p"
  by (simp add: locate_def start_def)

lemma way_of_cwd: "cwd fs' = cwd fs \<Longrightarrow> way_of fs' p = way_of fs p"
  by (simp add: way_of_def start_def)

section \<open>Facts about the file manager\<close>

lemma readFile_absent:
  assumes "node_at fs (locate fs (getFullPath fm f)) = None"
  shows "readFile fm fs f = Inr None"
proof -
  have "\<not> fileExists fm fs f"
    using assms
    by (auto simp: fileExists_def fs_access_def dest: resolve_lexical
             split: option.splits sum.splits)
  then show ?thesis by (simp add: readFile_def Let_def)
qed

lemma readFile_present:
  assumes "fault fs (Access (getFullPath fm f)) = None"
      and "fault fs (ReadFile (getFullPath fm f)) = None"
      and pl: "plain_segment f" "f \<noteq> ''..''" and ne: "baseDir fm \<noteq> []"
      and dirs: "\<forall>x\<in>set (way_of fs (baseDir fm)). node_at fs x = Some Dir"
      and c: "node_at fs (locate fs (getFullPath fm f)) = Some (File c)"
  shows "readFile fm fs f = Inr (Some c)"
proof -
  have r: "resolve fs (getFullPath fm f) = Inr (locate fs (getFullPath fm f))"
    using resolve_full_path [OF pl ne dirs] locate_full_path [OF pl ne, of fs] by simp
  show ?thesis
    using assms(1,2) c
    by (simp add: readFile_def Let_def fileExists_def fs_access_def fs_readFile_def r)
qed

lemma appendToFile_ok:
  assumes m: "fault fs (Mkdir (baseDir fm)) = None"
      and a: "fault fs (AppendFile (getFullPath fm f)) = None"
      and cm: "can_make_dir fs (baseDir fm)"
      and pl: "plain_segment f" "f \<noteq> ''..''"
      and nw: "locate fs (getFullPath fm f) \<notin> set (way_of fs (baseDir fm))"
      and nd: "node_at fs (locate fs (getFullPath fm f)) \<noteq> Some Dir"
  shows "fst (appendToFile fm fs f v) = Inr ()"
    and "node_at (snd (appendToFile fm fs f v)) (locate fs (getFullPath fm f)) =
           Some (File ((case file_at fs (locate fs (getFullPath fm f)) of
                          None \<Rightarrow> [] | Some c \<Rightarrow> c) @ to_string v @ [CHR 0x0A]))"
    and "\<forall>x\<in>set (way_of fs (baseDir fm)). node_at (snd (appendToFile fm fs f v)) x = Some Dir"
    and "cwd (snd (appendToFile fm fs f v)) = cwd fs"
    and "fault (snd (appendToFile fm fs f v)) = fault fs"
proof -
  let ?t = "locate fs (getFullPath fm f)"
  let ?data = "to_string v @ [CHR 0x0A]"
  let ?old = "case file_at fs ?t of None \<Rightarrow> [] | Some c \<Rightarrow> c"
  have ne: "baseDir fm \<noteq> []" using cm by (simp add: can_make_dir_def)
  obtain fs1 where mk: "fs_mkdir fs (baseDir fm) = Inr fs1"
    using fs_mkdir_ok [OF m cm] by blast
  note fr = fs_mkdir_frame [OF mk]
  have dirs: "\<forall>x\<in>set (way_of fs1 (baseDir fm)). node_at fs1 x = Some Dir"
    using fr(6) way_of_cwd [OF fr(4)] by simp
  have t1: "locate fs1 (getFullPath fm f) = ?t" by (rule locate_cwd [OF fr(4)])
  have r: "resolve fs1 (getFullPath fm f) = Inr ?t"
    using resolve_full_path [OF pl ne dirs] locate_full_path [OF pl ne, of fs1] t1 by simp
  have same: "node_at fs1 ?t = node_at fs ?t" using fr(3) [of ?t] nw by blast
  have tne: "?t \<noteq> []" using locate_full_path [OF pl ne, of fs] by simp
  have ap: "fs_appendFile fs1 (getFullPath fm f) ?data = Inr (put_node fs1 ?t (File (?old @ ?data)))"
    using a nd same fr(5) r
    by (auto simp: fs_appendFile_def file_at_def split: option.splits node.splits)
  have res: "appendToFile fm fs f v = (Inr (), put_node fs1 ?t (File (?old @ ?data)))"
    by (simp add: appendToFile_def Let_def mk ap)
  show "fst (appendToFile fm fs f v) = Inr ()" by (simp add: res)
  show "node_at (snd (appendToFile fm fs f v)) ?t = Some (File (?old @ ?data))"
    by (simp add: res node_at_put_node [OF tne])
  show "\<forall>x\<in>set (way_of fs (baseDir fm)). node_at (snd (appendToFile fm fs f v)) x = Some Dir"
    using fr(6) nw by (auto simp: res node_at_put_node [OF tne])
  show "cwd (snd (appendToFile fm fs f v)) = cwd fs" by (simp add: res fr(4))
  show "fault (snd (appendToFile fm fs f v)) = fault fs" by (simp add: res fr(5))
qed

lemma appendToFile_cases:
  "snd (appendToFile fm fs f v) = fs
   \<or> (\<exists>fs1. fs_mkdir fs (baseDir fm) = Inr fs1 \<and>
        (snd (appendToFile fm fs f v) = fs1
         \<or> (\<exists>data. fs_appendFile fs1 (getFullPath fm f) data = Inr (snd (appendToFile fm fs f v)))))"
  by (auto simp: appendToFile_def Let_def split: sum.splits)

lemma appendToFile_frame:
  fixes fm fs f v
  defines "fs' \<equiv> snd (appendToFile fm fs f v)"
  shows "cwd fs' = cwd fs" and "fault fs' = fault fs"
    and "x \<noteq> locate fs (getFullPath fm f) \<Longrightarrow> file_at fs' x = file_at fs x"
    and "x \<noteq> locate fs (getFullPath fm f) \<Longrightarrow> node_at fs x = Some n \<Longrightarrow> node_at fs' x = Some n"
    and "x \<noteq> locate fs (getFullPath fm f) \<Longrightarrow> node_at fs' x \<noteq> node_at fs x \<Longrightarrow>
           node_at fs x = None \<and> node_at fs' x = Some Dir \<and> x \<in> set (way_of fs (baseDir fm))"
proof -
  consider (same) "fs' = fs"
    | (dir) "fs_mkdir fs (baseDir fm) = Inr fs'"
    | (both) fs1 data where "fs_mkdir fs (baseDir fm) = Inr fs1"
        "fs_appendFile fs1 (getFullPath fm f) data = Inr fs'"
    using appendToFile_cases [of fm fs f v] unfolding fs'_def by blast
  then have "cwd fs' = cwd fs \<and> fault fs' = fault fs
     \<and> (x \<noteq> locate fs (getFullPath fm f) \<longrightarrow>
          (\<exists>fs1. node_at fs' x = node_at fs1 x \<and> file_at fs1 x = file_at fs x
             \<and> (\<forall>n. node_at fs x = Some n \<longrightarrow> node_at fs1 x = Some n)
             \<and> (node_at fs1 x \<noteq> node_at fs x \<longrightarrow>
                   node_at fs x = None \<and> node_at fs1 x = Some Dir
                   \<and> x \<in> set (way_of fs (baseDir fm)))))"
  proof cases
    case same
    then show ?thesis by auto
  next
    case dir
    note fr = fs_mkdir_frame [OF dir]
    show ?thesis using fr(1,2,3,4,5) by blast
  next
    case both
    note fr = fs_mkdir_frame [OF both(1)]
    note ar = fs_appendFile_frame [OF both(2)]
    have l: "locate fs1 (getFullPath fm f) = locate fs (getFullPath fm f)"
      by (rule locate_cwd [OF fr(4)])
    show ?thesis
      using fr(1,2,3,4,5) ar(2,3) ar(1) [of x] unfolding l by (intro conjI impI exI [of _ fs1]) auto
  qed
  then show "cwd fs' = cwd fs" and "fault fs' = fault fs"
    and "x \<noteq> locate fs (getFullPath fm f) \<Longrightarrow> file_at fs' x = file_at fs x"
    and "x \<noteq> locate fs (getFullPath fm f) \<Longrightarrow> node_at fs x = Some n \<Longrightarrow> node_at fs' x = Some n"
    and "x \<noteq> locate fs (getFullPath fm f) \<Longrightarrow> node_at fs' x \<noteq> node_at fs x \<Longrightarrow>
           node_at fs x = None \<and> node_at fs' x = Some Dir \<and> x \<in> set (way_of fs (baseDir fm))"
    by (auto simp: file_at_def)
qed

lemma demo_locate:
  "locate fs (getFullPath demo_fm ''file.txt'') = [''srv'', ''files'', ''file.txt'']"
  by (simp add: demo_full_path locate_def start_def isAbsolute_def step_def)

lemma demo_way: "way_of fs (baseDir demo_fm) = [[], [], [''srv''], [''srv'', ''files'']]"
  by (simp add: demo_fm_def way_of_def start_def isAbsolute_def step_def)

lemma plain_file_txt: "plain_segment ''file.txt''" "''file.txt'' \<noteq> ''..''"
  by (simp_all add: plain_segment_def)

lemma node_at_empty_fs: "x \<noteq> [] \<Longrightarrow> node_at empty_fs x = None"
  by (simp add: node_at_def empty_fs_def)

lemma can_make_dir_demo: "can_make_dir empty_fs (baseDir demo_fm)"
  unfolding can_make_dir_def demo_way
  by (simp add: file_at_def node_at_def empty_fs_def) (simp add: demo_fm_def)

text \<open>Without the storage directory an append fails: the file has nowhere to be made.\<close>

lemma appendFile_absent_directory:
  "fs_appendFile empty_fs ''/srv/files/file.txt'' data = Inl (SystemError ENOENT)"
  by (simp add: fs_appendFile_def resolve_def start_def isAbsolute_def step_def node_at_def
                empty_fs_def)

section \<open>Facts about the handlers and the routing\<close>

lemma snd_handleWriteRequest:
  "snd (handleWriteRequest rh fs res q) = fs
   \<or> snd (handleWriteRequest rh fs res q)
       = snd (appendToFile (fileManager rh) fs ''file.txt'' (get_property q ''text''))"
  by (auto simp: handleWriteRequest_def Let_def split: prod.splits sum.splits)

lemma handleReadRequest_valid:
  "f \<noteq> [] \<Longrightarrow> isValidFilename (JStr (trim f)) \<Longrightarrow>
     handleReadRequest rh fs res (JStr f) =
       (case readFile (fileManager rh) fs (trim f) of
          Inl e \<Rightarrow> sendError res 500 ''Internal Server Error: Could not read file''
        | Inr None \<Rightarrow> send404 res (trim f)
        | Inr (Some content) \<Rightarrow> sendSuccess res content ''text/plain; charset=utf-8'')"
  by (simp add: handleReadRequest_def sanitizeFilename_def del: isValidFilename.simps)

lemma handleReadRequest_invalid:
  "\<not> isValidFilename (JStr (trim f)) \<Longrightarrow>
     handleReadRequest rh fs res (JStr f) =
       sendError res 400
         (if f = [] then ''Bad Request: No filename provided''
          else ''Bad Request: Invalid filename'')"
  by (simp add: handleReadRequest_def sanitizeFilename_def del: isValidFilename.simps)

lemma handleWriteRequest_sent:
  "(\<exists>code msg. fst (handleWriteRequest rh fs res q) = sendError res code msg)
   \<or> (\<exists>d ct. fst (handleWriteRequest rh fs res q) = sendSuccess res d ct)"
  by (auto simp: handleWriteRequest_def Let_def sendWriteSuccess_def split: prod.splits sum.splits)

lemma handleReadRequest_sent:
  "(\<exists>code msg. handleReadRequest rh fs res v = sendError res code msg)
   \<or> (\<exists>d ct. handleReadRequest rh fs res v = sendSuccess res d ct)"
  by (auto simp: handleReadRequest_def send404_def split: sum.splits option.splits)

lemma route_sent:
  "route rh fs req res = Inr (r, fs') \<Longrightarrow>
     (\<exists>code msg. r = sendError res code msg) \<or> (\<exists>d ct. r = sendSuccess res d ct)"
  unfolding route_def
  using handleWriteRequest_sent [of rh fs res "query req"]
        handleReadRequest_sent [of rh fs res]
  by (auto split: if_splits js_value.splits simp: Let_def)

lemma split_from_not_Nil: "split_from sep acc s \<noteq> []"
  by (induction sep acc s rule: split_from.induct) auto

lemma route_filename_is_string:
  assumes "startsWith p readFile_prefix"
  shows "\<exists>s. element_at (split_str p readFile_prefix) 1 = JStr s"
proof -
  have ne: "readFile_prefix \<noteq> []" by (simp add: readFile_prefix_def)
  with assms obtain c cs where p: "p = c # cs"
    by (cases p) (auto simp: startsWith_def)
  let ?rest = "split_from readFile_prefix [] (drop (length readFile_prefix) (c # cs))"
  have "split_str p readFile_prefix = [] # ?rest"
    using assms ne unfolding p split_str_def startsWith_def by simp
  moreover have "?rest \<noteq> []" by (rule split_from_not_Nil)
  ultimately have "1 < length (split_str p readFile_prefix)"
    by (cases ?rest) auto
  then show ?thesis by (simp add: element_at_def)
qed

section \<open>The two endpoints, end to end\<close>

text \<open>
  \<open>GET /COMP4537/labs/3/writeFile/?text=BCIT\<close> on an empty store, then
  \<open>GET /COMP4537/labs/3/readFile/file.txt\<close>: the second response is the line written.
\<close>

lemma example_write_then_read:
  "body (fst (server_callback demo_rh
      (snd (server_callback demo_rh empty_fs
         \<lparr>http_method = ''GET'', pathname = JStr ''/COMP4537/labs/3/writeFile/'',
          query = [''text'' \<mapsto> JStr ''BCIT'']\<rparr> new_response))
      \<lparr>http_method = ''GET'', pathname = JStr ''/COMP4537/labs/3/readFile/file.txt'',
       query = Map.empty\<rparr> new_response)) = ''BCIT'' @ [CHR 0x0A]"
  by code_simp

section \<open>The claims\<close>

text \<open>
  C1. Appending a text \<open>T\<close> to a fresh store and reading the file back returns \<open>T\<close>
  followed by one newline. The store is fresh when the storage directory is absent or is
  a directory, with no regular file on the way to it, and the file is absent; the file is
  named by a plain name; its location is not on the way to the storage directory; and the
  operating system refuses none of the four calls. Then the append succeeds, having made
  the storage directory and the directories that lead to it, and the read returns exactly
  \<open>T\<close> and a newline.
\<close>

theorem append_then_read_fresh:
  assumes "fault fs (Mkdir (baseDir fm)) = None"
      and "fault fs (AppendFile (getFullPath fm f)) = None"
      and "fault fs (Access (getFullPath fm f)) = None"
      and "fault fs (ReadFile (getFullPath fm f)) = None"
      and "can_make_dir fs (baseDir fm)"
      and "plain_segment f" and "f \<noteq> ''..''"
      and "node_at fs (locate fs (getFullPath fm f)) = None"
      and "locate fs (getFullPath fm f) \<notin> set (way_of fs (baseDir fm))"
  shows "fst (appendToFile fm fs f (JStr T)) = Inr ()
         \<and> readFile fm (snd (appendToFile fm fs f (JStr T))) f = Inr (Some (T @ [CHR 0x0A]))
         \<and> (\<forall>x\<in>set (way_of fs (baseDir fm)).
              node_at (snd (appendToFile fm fs f (JStr T))) x = Some Dir)"
proof -
  let ?fs' = "snd (appendToFile fm fs f (JStr T))"
  have nd: "node_at fs (locate fs (getFullPath fm f)) \<noteq> Some Dir" using assms(8) by simp
  note ok = appendToFile_ok [OF assms(1,2,5,6,7,9) nd, of "JStr T"]
  have ne: "baseDir fm \<noteq> []" using assms(5) by (simp add: can_make_dir_def)
  have c: "node_at ?fs' (locate ?fs' (getFullPath fm f)) = Some (File (T @ [CHR 0x0A]))"
    using ok(2) assms(8) by (simp add: locate_cwd [OF ok(4)] file_at_def)
  have dirs: "\<forall>x\<in>set (way_of ?fs' (baseDir fm)). node_at ?fs' x = Some Dir"
    using ok(3) by (simp add: way_of_cwd [OF ok(4)])
  have "readFile fm ?fs' f = Inr (Some (T @ [CHR 0x0A]))"
    by (rule readFile_present [OF _ _ assms(6,7) ne dirs c]) (simp_all add: ok(5) assms(3,4))
  then show ?thesis using ok(1,3) by simp
qed

theorem append_then_read_fresh_witness:
  "fst (appendToFile demo_fm empty_fs ''file.txt'' (JStr ''BCIT'')) = Inr ()
   \<and> readFile demo_fm (snd (appendToFile demo_fm empty_fs ''file.txt'' (JStr ''BCIT'')))
        ''file.txt'' = Inr (Some (''BCIT'' @ [CHR 0x0A]))
   \<and> node_at empty_fs [''srv'', ''files''] = None
   \<and> node_at (snd (appendToFile demo_fm empty_fs ''file.txt'' (JStr ''BCIT'')))
        [''srv'', ''files''] = Some Dir"
proof -
  have "fst (appendToFile demo_fm empty_fs ''file.txt'' (JStr ''BCIT'')) = Inr ()
         \<and> readFile demo_fm (snd (appendToFile demo_fm empty_fs ''file.txt'' (JStr ''BCIT'')))
              ''file.txt'' = Inr (Some (''BCIT'' @ [CHR 0x0A]))
         \<and> (\<forall>x\<in>set (way_of empty_fs (baseDir demo_fm)).
              node_at (snd (appendToFile demo_fm empty_fs ''file.txt'' (JStr ''BCIT''))) x
                = Some Dir)"
    by (rule append_then_read_fresh)
       (simp_all add: can_make_dir_demo plain_file_txt demo_locate demo_way node_at_empty_fs,
        simp_all add: empty_fs_def)
  then show ?thesis by (simp add: demo_way node_at_empty_fs)
qed

text \<open>
  C2. The read handler answers a filename \<open>f\<close> with 400 exactly when \<open>f\<close>, trimmed, is
  empty, contains \<open>..\<close>, \<open>/\<close> or a backslash, does not end in \<open>.txt\<close>, or has a
  character outside \<open>[A-Za-z0-9_.-]\<close>. The answer is then an error response that does not
  depend on the file system: it is the same whatever the store holds.
\<close>

theorem read_rejects_exactly_invalid_names:
  "(statusCode (handleReadRequest rh fs res (JStr f)) = 400 \<longleftrightarrow>
      (trim f = [] \<or> str_includes (trim f) ''..'' \<or> str_includes (trim f) ''/''
       \<or> str_includes (trim f) [CHR 0x5C] \<or> \<not> endsWith (trim f) ''.txt''
       \<or> \<not> list_all in_valid_class (trim f)))
   \<and> (statusCode (handleReadRequest rh fs res (JStr f)) = 400 \<longrightarrow>
        handleReadRequest rh fs res (JStr f) =
          sendError res 400
            (if f = [] then ''Bad Request: No filename provided''
             else ''Bad Request: Invalid filename'')
        \<and> handleReadRequest rh fs' res (JStr f) = handleReadRequest rh fs res (JStr f))"
proof (cases "isValidFilename (JStr (trim f))")
  case True
  then have ne: "f \<noteq> []" by auto
  have "statusCode (handleReadRequest rh fs res (JStr f)) \<noteq> 400"
    by (simp add: handleReadRequest_valid [OF ne True] split: sum.splits option.splits)
  moreover have "\<not> (trim f = [] \<or> str_includes (trim f) ''..'' \<or> str_includes (trim f) ''/''
       \<or> str_includes (trim f) [CHR 0x5C] \<or> \<not> endsWith (trim f) ''.txt''
       \<or> \<not> list_all in_valid_class (trim f))"
    using True unfolding isValidFilename_iff by blast
  ultimately show ?thesis by blast
next
  case False
  have "statusCode (handleReadRequest rh fs res (JStr f)) = 400"
    by (simp add: handleReadRequest_invalid [OF False])
  moreover have "trim f = [] \<or> str_includes (trim f) ''..'' \<or> str_includes (trim f) ''/''
       \<or> str_includes (trim f) [CHR 0x5C] \<or> \<not> endsWith (trim f) ''.txt''
       \<or> \<not> list_all in_valid_class (trim f)"
    using False unfolding isValidFilename_iff by blast
  ultimately show ?thesis
    using handleReadRequest_invalid [OF False, of rh fs res]
          handleReadRequest_invalid [OF False, of rh fs' res] by simp
qed

theorem read_rejects_exactly_invalid_names_witness:
  "statusCode (handleReadRequest demo_rh
      (empty_fs\<lparr>nodes := [[''srv''] \<mapsto> Dir, [''srv'', ''files''] \<mapsto> Dir,
         [''srv'', ''files'', ''notes.md''] \<mapsto> File ''secret'']\<rparr>) new_response
      (JStr ''notes.md'')) = 400
   \<and> body (handleReadRequest demo_rh
      (empty_fs\<lparr>nodes := [[''srv''] \<mapsto> Dir, [''srv'', ''files''] \<mapsto> Dir,
         [''srv'', ''files'', ''notes.md''] \<mapsto> File ''secret'']\<rparr>) new_response
      (JStr ''notes.md'')) = ''Bad Request: Invalid filename''"
proof -
  note t = read_rejects_exactly_invalid_names [of demo_rh
      "empty_fs\<lparr>nodes := [[''srv''] \<mapsto> Dir, [''srv'', ''files''] \<mapsto> Dir,
         [''srv'', ''files'', ''notes.md''] \<mapsto> File ''secret'']\<rparr>" new_response
      "''notes.md''" empty_fs]
  have tr: "trim ''notes.md'' = ''notes.md''"
    by (simp add: trim_def is_white_space_def charCode_def)
  have "\<not> endsWith (trim ''notes.md'') ''.txt''"
    unfolding tr by (simp add: endsWith_def)
  with t have s: "statusCode (handleReadRequest demo_rh
      (empty_fs\<lparr>nodes := [[''srv''] \<mapsto> Dir, [''srv'', ''files''] \<mapsto> Dir,
         [''srv'', ''files'', ''notes.md''] \<mapsto> File ''secret'']\<rparr>) new_response
      (JStr ''notes.md'')) = 400"
    by blast
  with t have "handleReadRequest demo_rh
      (empty_fs\<lparr>nodes := [[''srv''] \<mapsto> Dir, [''srv'', ''files''] \<mapsto> Dir,
         [''srv'', ''files'', ''notes.md''] \<mapsto> File ''secret'']\<rparr>) new_response
      (JStr ''notes.md'') = sendError new_response 400 ''Bad Request: Invalid filename''"
    by simp
  then show ?thesis by (simp add: new_response_def)
qed

text \<open>
  C3. Appending \<open>T1\<close> and then \<open>T2\<close> to the same fresh file leaves the two lines in
  that order: both appends succeed and the file reads \<open>T1\<close>, newline, \<open>T2\<close>, newline.
  The store is fresh as in C1.
\<close>

theorem append_twice_in_order:
  assumes "fault fs (Mkdir (baseDir fm)) = None"
      and "fault fs (AppendFile (getFullPath fm f)) = None"
      and "fault fs (Access (getFullPath fm f)) = None"
      and "fault fs (ReadFile (getFullPath fm f)) = None"
      and "can_make_dir fs (baseDir fm)"
      and "plain_segment f" and "f \<noteq> ''..''"
      and "node_at fs (locate fs (getFullPath fm f)) = None"
      and "locate fs (getFullPath fm f) \<notin> set (way_of fs (baseDir fm))"
  shows "fst (appendToFile fm fs f (JStr T1)) = Inr ()
         \<and> fst (appendToFile fm (snd (appendToFile fm fs f (JStr T1))) f (JStr T2)) = Inr ()
         \<and> readFile fm
              (snd (appendToFile fm (snd (appendToFile fm fs f (JStr T1))) f (JStr T2))) f
             = Inr (Some (T1 @ [CHR 0x0A] @ T2 @ [CHR 0x0A]))"
proof -
  let ?t = "locate fs (getFullPath fm f)"
  let ?fs1 = "snd (appendToFile fm fs f (JStr T1))"
  let ?fs2 = "snd (appendToFile fm ?fs1 f (JStr T2))"
  have ne: "baseDir fm \<noteq> []" using assms(5) by (simp add: can_make_dir_def)
  have nd: "node_at fs ?t \<noteq> Some Dir" using assms(8) by simp
  note ok1 = appendToFile_ok [OF assms(1,2,5,6,7,9) nd, of "JStr T1"]
  have w1: "way_of ?fs1 (baseDir fm) = way_of fs (baseDir fm)" by (rule way_of_cwd [OF ok1(4)])
  have l1: "locate ?fs1 (getFullPath fm f) = ?t" by (rule locate_cwd [OF ok1(4)])
  have c1: "node_at ?fs1 ?t = Some (File (T1 @ [CHR 0x0A]))"
    using ok1(2) assms(8) by (simp add: file_at_def)
  have cm1: "can_make_dir ?fs1 (baseDir fm)"
    using ok1(3) ne by (simp add: can_make_dir_def w1 list_all_iff file_at_def)
  have nw1: "locate ?fs1 (getFullPath fm f) \<notin> set (way_of ?fs1 (baseDir fm))"
    using assms(9) by (simp add: w1 l1)
  have nd1: "node_at ?fs1 (locate ?fs1 (getFullPath fm f)) \<noteq> Some Dir"
    by (simp add: l1 c1)
  have m1: "fault ?fs1 (Mkdir (baseDir fm)) = None"
    and a1: "fault ?fs1 (AppendFile (getFullPath fm f)) = None"
    by (simp_all add: ok1(5) assms(1,2))
  note ok2 = appendToFile_ok [OF m1 a1 cm1 assms(6,7) nw1 nd1, of "JStr T2"]
  have cw2: "cwd ?fs2 = cwd fs" using ok2(4) ok1(4) by simp
  have c2: "node_at ?fs2 (locate ?fs2 (getFullPath fm f))
              = Some (File ((T1 @ [CHR 0x0A]) @ T2 @ [CHR 0x0A]))"
    using ok2(2) by (simp add: l1 c1 locate_cwd [OF cw2] file_at_def)
  have dirs: "\<forall>x\<in>set (way_of ?fs2 (baseDir fm)). node_at ?fs2 x = Some Dir"
    using ok2(3) by (simp add: w1 way_of_cwd [OF cw2])
  have "readFile fm ?fs2 f = Inr (Some ((T1 @ [CHR 0x0A]) @ T2 @ [CHR 0x0A]))"
    by (rule readFile_present [OF _ _ assms(6,7) ne dirs c2])
       (simp_all add: ok2(5) ok1(5) assms(3,4))
  then show ?thesis using ok1(1) ok2(1) by simp
qed

theorem append_twice_in_order_witness:
  "readFile demo_fm
     (snd (appendToFile demo_fm
        (snd (appendToFile demo_fm empty_fs ''file.txt'' (JStr ''one''))) ''file.txt''
        (JStr ''two''))) ''file.txt''
     = Inr (Some (''one'' @ [CHR 0x0A] @ ''two'' @ [CHR 0x0A]))"
proof -
  have
    "fst (appendToFile demo_fm empty_fs ''file.txt'' (JStr ''one'')) = Inr ()
     \<and> fst (appendToFile demo_fm (snd (appendToFile demo_fm empty_fs ''file.txt'' (JStr ''one'')))
              ''file.txt'' (JStr ''two'')) = Inr ()
     \<and> readFile demo_fm
          (snd (appendToFile demo_fm
             (snd (appendToFile demo_fm empty_fs ''file.txt'' (JStr ''one''))) ''file.txt''
             (JStr ''two''))) ''file.txt''
         = Inr (Some (''one'' @ [CHR 0x0A] @ ''two'' @ [CHR 0x0A]))"
    by (rule append_twice_in_order)
       (simp_all add: can_make_dir_demo plain_file_txt demo_locate demo_way node_at_empty_fs,
        simp_all add: empty_fs_def)
  then show ?thesis by blast
qed

text \<open>
  C4. For a valid filename \<open>f\<close> that is absent from the store, the file manager's read
  returns \<open>null\<close> (here \<open>None\<close>) and does not throw, whatever calls the operating system
  refuses, and the read handler answers 404 with the body
  \<open>Error 404: File '<f>' not found\<close>, the filename embedded.
\<close>

theorem read_absent_file_404:
  assumes "isValidFilename (JStr f)"
      and "node_at fs (locate fs (getFullPath (fileManager rh) f)) = None"
  shows "readFile (fileManager rh) fs f = Inr None
         \<and> handleReadRequest rh fs res (JStr f) =
             sendError res 404
               (''Error 404: File '' @ [CHR 0x27] @ f @ [CHR 0x27] @ '' not found'')
         \<and> statusCode (handleReadRequest rh fs res (JStr f)) = 404
         \<and> body (handleReadRequest rh fs res (JStr f)) =
             body res @ ''Error 404: File '' @ [CHR 0x27] @ f @ [CHR 0x27] @ '' not found''"
proof -
  have t: "trim f = f"
    using isValidFilename_trim [OF assms(1)] by (simp add: sanitizeFilename_def)
  have ne: "f \<noteq> []" using assms(1) by auto
  have r: "readFile (fileManager rh) fs f = Inr None"
    by (rule readFile_absent [OF assms(2)])
  have h: "handleReadRequest rh fs res (JStr f) =
             sendError res 404
               (''Error 404: File '' @ [CHR 0x27] @ f @ [CHR 0x27] @ '' not found'')"
    using handleReadRequest_valid [of f rh fs res] ne assms(1) r
    by (simp add: t send404_def del: isValidFilename.simps)
  show ?thesis unfolding h using r by simp
qed

theorem read_absent_file_404_witness:
  "body (handleReadRequest demo_rh empty_fs new_response (JStr ''file.txt''))
     = ''Error 404: File '' @ [CHR 0x27] @ ''file.txt'' @ [CHR 0x27] @ '' not found''
   \<and> statusCode (handleReadRequest demo_rh empty_fs new_response (JStr ''file.txt'')) = 404"
  using read_absent_file_404 [of "''file.txt''" empty_fs demo_rh new_response]
        isValidFilename_file_txt
  by (simp add: demo_rh_def demo_locate node_at_empty_fs new_response_def
           del: isValidFilename.simps)

text \<open>
  C5. A write request whose \<open>text\<close> parameter is missing or empty is answered with 400,
  and the file system after the request is the file system before it.
\<close>

theorem write_without_text_rejected:
  assumes "queryParams ''text'' = None \<or> queryParams ''text'' = Some (JStr [])"
  shows "handleWriteRequest rh fs res queryParams =
           (sendError res 400
              (''Bad Request: Missing '' @ [CHR 0x22] @ ''text'' @ [CHR 0x22] @ '' parameter''), fs)
         \<and> statusCode (fst (handleWriteRequest rh fs res queryParams)) = 400
         \<and> snd (handleWriteRequest rh fs res queryParams) = fs"
  using assms by (auto simp: handleWriteRequest_def get_property_def Let_def)

theorem write_without_text_rejected_witness:
  "statusCode (fst (handleWriteRequest demo_rh empty_fs new_response Map.empty)) = 400
   \<and> snd (handleWriteRequest demo_rh empty_fs new_response Map.empty) = empty_fs"
  using write_without_text_rejected [of Map.empty demo_rh empty_fs new_response]
  by simp

text \<open>
  C6. The filename policy accepts the literal \<open>file.txt\<close>. So a write request whose
  \<open>text\<close> is truthy goes on to the append, and its answer is decided by the append alone;
  no write request is answered with the \<open>Invalid filename\<close> error.
\<close>

theorem write_filename_always_valid:
  "isValidFilename (JStr ''file.txt'')
   \<and> (truthy (get_property queryParams ''text'') \<longrightarrow>
        handleWriteRequest rh fs res queryParams =
          (case appendToFile (fileManager rh) fs ''file.txt'' (get_property queryParams ''text'') of
             (Inl e, fs') \<Rightarrow>
               (sendError res 500 ''Internal Server Error: Could not write to file'', fs')
           | (Inr u, fs') \<Rightarrow> (sendWriteSuccess res (get_property queryParams ''text''), fs')))
   \<and> fst (handleWriteRequest rh fs res queryParams) \<noteq> sendError res 400 ''Invalid filename''"
proof -
  have v: "isValidFilename (JStr ''file.txt'')" by (rule isValidFilename_file_txt)
  have a: "truthy (get_property queryParams ''text'') \<Longrightarrow>
        handleWriteRequest rh fs res queryParams =
          (case appendToFile (fileManager rh) fs ''file.txt'' (get_property queryParams ''text'') of
             (Inl e, fs') \<Rightarrow>
               (sendError res 500 ''Internal Server Error: Could not write to file'', fs')
           | (Inr u, fs') \<Rightarrow> (sendWriteSuccess res (get_property queryParams ''text''), fs'))"
    by (simp add: handleWriteRequest_def Let_def v del: isValidFilename.simps)
  have b: "fst (handleWriteRequest rh fs res queryParams) \<noteq> sendError res 400 ''Invalid filename''"
  proof (cases "truthy (get_property queryParams ''text'')")
    case False
    then have "body (fst (handleWriteRequest rh fs res queryParams))
        = body res @ ''Bad Request: Missing '' @ [CHR 0x22] @ ''text'' @ [CHR 0x22] @ '' parameter''"
      by (simp add: handleWriteRequest_def Let_def)
    moreover have "body (sendError res 400 ''Invalid filename'') = body res @ ''Invalid filename''"
      by simp
    ultimately show ?thesis by auto
  next
    case True
    have "statusCode (fst (handleWriteRequest rh fs res queryParams)) \<noteq> 400"
      using a [OF True] by (auto simp: sendWriteSuccess_def split: prod.splits sum.splits)
    then show ?thesis by (metis statusCode_sendError)
  qed
  show ?thesis using v a b by blast
qed

theorem write_filename_always_valid_witness:
  "statusCode (fst (handleWriteRequest demo_rh empty_fs new_response [''text'' \<mapsto> JStr ''BCIT'']))
     = 200
   \<and> body (fst (handleWriteRequest demo_rh empty_fs new_response [''text'' \<mapsto> JStr ''BCIT'']))
     = ''Successfully appended: '' @ [CHR 0x22] @ ''BCIT'' @ [CHR 0x22]
   \<and> file_at
        (snd (handleWriteRequest demo_rh empty_fs new_response [''text'' \<mapsto> JStr ''BCIT'']))
        [''srv'', ''files'', ''file.txt''] = Some (''BCIT'' @ [CHR 0x0A])"
proof -
  let ?q = "[''text'' \<mapsto> JStr ''BCIT'']"
  have t: "get_property ?q ''text'' = JStr ''BCIT''"
    by (simp add: get_property_def)
  have nd: "node_at empty_fs (locate empty_fs (getFullPath demo_fm ''file.txt'')) \<noteq> Some Dir"
    by (simp add: demo_locate node_at_empty_fs)
  have nw: "locate empty_fs (getFullPath demo_fm ''file.txt'')
              \<notin> set (way_of empty_fs (baseDir demo_fm))"
    by (simp add: demo_locate demo_way)
  have f0: "fault empty_fs c = None" for c by (simp add: empty_fs_def)
  note ok = appendToFile_ok [OF f0 f0 can_make_dir_demo plain_file_txt nw nd, of "JStr ''BCIT''"]
  obtain r fs' where ap: "appendToFile demo_fm empty_fs ''file.txt'' (JStr ''BCIT'') = (r, fs')"
    by (cases "appendToFile demo_fm empty_fs ''file.txt'' (JStr ''BCIT'')")
  have r: "r = Inr ()" using ok(1) ap by simp
  have c: "file_at fs' [''srv'', ''files'', ''file.txt''] = Some (''BCIT'' @ [CHR 0x0A])"
    using ok(2) ap by (simp add: demo_locate node_at_empty_fs file_at_def)
  have "handleWriteRequest demo_rh empty_fs new_response ?q =
      (sendWriteSuccess new_response (JStr ''BCIT''), fs')"
    using write_filename_always_valid [of ?q demo_rh empty_fs new_response]
    by (simp add: t demo_rh_def ap r del: isValidFilename.simps)
  then show ?thesis
    using c by (simp add: sendWriteSuccess_def new_response_def)
qed

text \<open>
  C7. Every response of the server carries the header \<open>Access-Control-Allow-Origin: *\<close>:
  for every request, file system and response object, the response the callback leaves
  is finished and has that header. This covers the preflight answer, the write and read
  answers of every status, the unmatched path and the generic 500.
\<close>

theorem every_response_allows_any_origin:
  "headers (fst (server_callback rh fs req res)) ''Access-Control-Allow-Origin'' = Some ''*''
   \<and> finished (fst (server_callback rh fs req res))"
proof (cases "http_method req = ''OPTIONS''")
  case True
  then show ?thesis
    by (simp add: server_callback_def Let_def res_end_def writeHead_def setHeader_def)
next
  case False
  let ?res2 = "setHeader (setHeader res ''Access-Control-Allow-Origin'' ''*'')
                 ''Access-Control-Allow-Methods'' ''GET, POST, OPTIONS''"
  show ?thesis
  proof (cases "route rh fs req ?res2")
    case (Inl e)
    with False show ?thesis by (simp add: server_callback_def Let_def)
  next
    case (Inr r)
    obtain r1 fs1 where r: "r = (r1, fs1)" by (cases r)
    from route_sent [OF Inr [unfolded r]]
    have "headers r1 ''Access-Control-Allow-Origin'' = Some ''*'' \<and> finished r1"
      by auto
    with False Inr r show ?thesis by (simp add: server_callback_def Let_def)
  qed
qed

theorem every_response_allows_any_origin_witness:
  "headers (fst (server_callback demo_rh empty_fs
       \<lparr>http_method = ''OPTIONS'', pathname = JStr ''/anything'', query = Map.empty\<rparr> new_response))
     ''Access-Control-Allow-Origin'' = Some ''*''
   \<and> statusCode (fst (server_callback demo_rh empty_fs
       \<lparr>http_method = ''OPTIONS'', pathname = JStr ''/anything'', query = Map.empty\<rparr> new_response))
     = 204
   \<and> body (fst (server_callback demo_rh empty_fs
       \<lparr>http_method = ''OPTIONS'', pathname = JStr ''/anything'', query = Map.empty\<rparr> new_response))
     = []"
  using every_response_allows_any_origin [of demo_rh empty_fs
       "\<lparr>http_method = ''OPTIONS'', pathname = JStr ''/anything'', query = Map.empty\<rparr>" new_response]
  by (simp add: server_callback_def Let_def res_end_def writeHead_def setHeader_def
                new_response_def)

text \<open>
  C8. A filename \<open>f\<close> that the policy accepts contains no slash, no backslash and no
  \<open>..\<close>, and the full path the file manager computes for it lies directly inside the
  base directory: the components of \<open>path.join(baseDir, f)\<close> are the components of the
  normalised base directory followed by \<open>f\<close> alone, and the full path is absolute exactly
  when the base directory is.
\<close>

theorem valid_filename_stays_in_baseDir:
  assumes "isValidFilename (JStr f)"
  shows "\<not> str_includes f ''/'' \<and> \<not> str_includes f [CHR 0x5C] \<and> \<not> str_includes f ''..''
         \<and> path_segments (getFullPath fm f) = path_segments (path_normalize (baseDir fm)) @ [f]
         \<and> isAbsolute (getFullPath fm f) = isAbsolute (baseDir fm)"
proof -
  have inc: "\<not> str_includes f ''/'' \<and> \<not> str_includes f [CHR 0x5C] \<and> \<not> str_includes f ''..''"
    using assms by (auto split: if_splits)
  note pl = isValidFilename_plain [OF assms]
  have fne: "f \<noteq> []" and fns: "CHR ''/'' \<notin> set f" using pl(1) by (auto simp: plain_segment_def)
  have fabs: "\<not> isAbsolute f" using fne fns by (cases f) (auto simp: isAbsolute_def)
  show ?thesis
  proof (cases "baseDir fm = []")
    case True
    have g: "getFullPath fm f = path_normalize f"
      using True fne by (simp add: getFullPath_def path_join_def)
    have "normalizeString f True = [f]"
      using pl by (simp add: normalizeString_def split_slash_no_slash [OF fns] norm_step_def
                             plain_segment_def)
    then have "path_segments (getFullPath fm f) = [f]"
      unfolding g path_segments_normalize using fabs by simp
    moreover have "path_segments (path_normalize (baseDir fm)) = []"
      unfolding path_segments_normalize using True
      by (simp add: normalizeString_def norm_step_def)
    moreover have "isAbsolute (getFullPath fm f) = isAbsolute (baseDir fm)"
      unfolding g isAbsolute_normalize using True fabs by (simp add: isAbsolute_def)
    ultimately show ?thesis using inc by simp
  next
    case False
    let ?j = "baseDir fm @ CHR ''/'' # f"
    have g: "getFullPath fm f = path_normalize ?j"
      using False fne by (simp add: getFullPath_def path_join_def)
    have a: "isAbsolute ?j = isAbsolute (baseDir fm)"
      using False by (cases "baseDir fm") (auto simp: isAbsolute_def)
    have "path_segments (getFullPath fm f) = path_segments (path_normalize (baseDir fm)) @ [f]"
      unfolding g path_segments_normalize a by (rule normalizeString_snoc [OF pl])
    moreover have "isAbsolute (getFullPath fm f) = isAbsolute (baseDir fm)"
      unfolding g isAbsolute_normalize by (rule a)
    ultimately show ?thesis using inc by simp
  qed
qed

theorem valid_filename_stays_in_baseDir_witness:
  "path_segments (getFullPath demo_fm ''file.txt'') = [''srv'', ''files'', ''file.txt'']
   \<and> path_segments (path_normalize (baseDir demo_fm)) = [''srv'', ''files'']
   \<and> isAbsolute (getFullPath demo_fm ''file.txt'')"
proof -
  note t = valid_filename_stays_in_baseDir [OF isValidFilename_file_txt, of demo_fm]
  have "path_segments (getFullPath demo_fm ''file.txt'') = [''srv'', ''files'', ''file.txt'']"
    by (simp add: demo_full_path path_segments_def)
  with t have "path_segments (path_normalize (baseDir demo_fm)) = [''srv'', ''files'']"
    by simp
  moreover have "isAbsolute (baseDir demo_fm)"
    by (simp add: demo_fm_def isAbsolute_def)
  ultimately show ?thesis using t by simp
qed

text \<open>
  C9. A write request, whatever its query parameters, changes no file but \<open>file.txt\<close>
  in the storage directory: at every other location the regular file and its text are
  after the request what they were before. Every entry that was there stays as it was,
  and an entry that is new is a directory on the way to the storage directory.
\<close>

theorem write_changes_only_file_txt:
  assumes "loc \<noteq> locate fs (getFullPath (fileManager rh) ''file.txt'')"
  shows "file_at (snd (handleWriteRequest rh fs res queryParams)) loc = file_at fs loc
         \<and> (\<forall>n. node_at fs loc = Some n \<longrightarrow>
                node_at (snd (handleWriteRequest rh fs res queryParams)) loc = Some n)
         \<and> (node_at (snd (handleWriteRequest rh fs res queryParams)) loc \<noteq> node_at fs loc \<longrightarrow>
                node_at (snd (handleWriteRequest rh fs res queryParams)) loc = Some Dir
                \<and> loc \<in> set (way_of fs (baseDir (fileManager rh))))
         \<and> fault (snd (handleWriteRequest rh fs res queryParams)) = fault fs"
proof -
  let ?v = "get_property queryParams ''text''"
  note fr = appendToFile_frame
    [where fm = "fileManager rh" and fs = fs and f = "''file.txt''" and v = ?v]
  from snd_handleWriteRequest [of rh fs res queryParams] show ?thesis
  proof
    assume "snd (handleWriteRequest rh fs res queryParams) = fs"
    then show ?thesis by simp
  next
    assume e: "snd (handleWriteRequest rh fs res queryParams)
       = snd (appendToFile (fileManager rh) fs ''file.txt'' ?v)"
    show ?thesis
      unfolding e using fr(2) fr(3) [OF assms] fr(4) [OF assms] fr(5) [OF assms] by blast
  qed
qed

theorem write_changes_only_file_txt_witness:
  "file_at
     (snd (handleWriteRequest demo_rh
        (empty_fs\<lparr>nodes := [[''srv''] \<mapsto> Dir, [''srv'', ''files''] \<mapsto> Dir,
                            [''srv'', ''files'', ''other.txt''] \<mapsto> File ''keep'']\<rparr>)
        new_response [''text'' \<mapsto> JStr ''BCIT''])) [''srv'', ''files'', ''other.txt'']
     = Some ''keep''"
proof -
  let ?fs = "empty_fs\<lparr>nodes := [[''srv''] \<mapsto> Dir, [''srv'', ''files''] \<mapsto> Dir,
                            [''srv'', ''files'', ''other.txt''] \<mapsto> File ''keep'']\<rparr>"
  have "[''srv'', ''files'', ''other.txt'']
          \<noteq> locate ?fs (getFullPath (fileManager demo_rh) ''file.txt'')"
    by (simp add: demo_rh_def demo_locate)
  from write_changes_only_file_txt [OF this, of new_response "[''text'' \<mapsto> JStr ''BCIT'']"]
  show ?thesis by (simp add: file_at_def node_at_def)
qed

text \<open>
  C10. The bare extension \<open>.txt\<close> is accepted by the filename policy. A read request
  for \<open>/COMP4537/labs/3/readFile/.txt\<close> is routed to the read handler with the filename
  \<open>.txt\<close>, is not answered with 400, and its answer is decided by the read of the store.
\<close>

theorem bare_extension_accepted:
  "isValidFilename (JStr ''.txt'')
   \<and> statusCode (handleReadRequest rh fs res (JStr ''.txt'')) \<noteq> 400
   \<and> handleReadRequest rh fs res (JStr ''.txt'') =
       (case readFile (fileManager rh) fs ''.txt'' of
          Inl e \<Rightarrow> sendError res 500 ''Internal Server Error: Could not read file''
        | Inr None \<Rightarrow> send404 res ''.txt''
        | Inr (Some content) \<Rightarrow> sendSuccess res content ''text/plain; charset=utf-8'')
   \<and> route rh fs \<lparr>http_method = m, pathname = JStr ''/COMP4537/labs/3/readFile/.txt'', query = q\<rparr> res
       = Inr (handleReadRequest rh fs res (JStr ''.txt''), fs)"
proof -
  have v: "isValidFilename (JStr ''.txt'')" by (rule isValidFilename_dot_txt)
  have s: "sanitizeFilename ''.txt'' = ''.txt''" by (rule isValidFilename_trim [OF v])
  have e: "handleReadRequest rh fs res (JStr ''.txt'') =
       (case readFile (fileManager rh) fs ''.txt'' of
          Inl e \<Rightarrow> sendError res 500 ''Internal Server Error: Could not read file''
        | Inr None \<Rightarrow> send404 res ''.txt''
        | Inr (Some content) \<Rightarrow> sendSuccess res content ''text/plain; charset=utf-8'')"
    by (simp add: handleReadRequest_def s v del: isValidFilename.simps)
  have n: "statusCode (handleReadRequest rh fs res (JStr ''.txt'')) \<noteq> 400"
    unfolding e by (simp add: send404_def split: sum.splits option.splits)
  have sp: "split_str ''/COMP4537/labs/3/readFile/.txt'' readFile_prefix = ['''', ''.txt'']"
    by (simp add: split_str_def readFile_prefix_def)
  have r: "route rh fs \<lparr>http_method = m, pathname = JStr ''/COMP4537/labs/3/readFile/.txt'', query = q\<rparr> res
       = Inr (handleReadRequest rh fs res (JStr ''.txt''), fs)"
    by (simp add: route_def sp element_at_def Let_def) (simp add: startsWith_def readFile_prefix_def)
  show ?thesis using v e n r by blast
qed

theorem bare_extension_accepted_witness:
  "isValidFilename (JStr ''.txt'')
   \<and> statusCode (handleReadRequest demo_rh empty_fs new_response (JStr ''.txt'')) = 404
   \<and> body (handleReadRequest demo_rh empty_fs new_response (JStr ''.txt''))
       = ''Error 404: File '' @ [CHR 0x27] @ ''.txt'' @ [CHR 0x27] @ '' not found''"
proof -
  note t = bare_extension_accepted [of demo_rh empty_fs new_response "''GET''" Map.empty]
  from t have v: "isValidFilename (JStr ''.txt'')" by blast
  from t have e: "handleReadRequest demo_rh empty_fs new_response (JStr ''.txt'') =
       (case readFile (fileManager demo_rh) empty_fs ''.txt'' of
          Inl e \<Rightarrow> sendError new_response 500 ''Internal Server Error: Could not read file''
        | Inr None \<Rightarrow> send404 new_response ''.txt''
        | Inr (Some content) \<Rightarrow> sendSuccess new_response content ''text/plain; charset=utf-8'')"
    by blast
  have pl: "plain_segment ''.txt''" "''.txt'' \<noteq> ''..''" by (simp_all add: plain_segment_def)
  have "baseDir (fileManager demo_rh) \<noteq> []" by (simp add: demo_rh_def demo_fm_def)
  from locate_full_path [OF pl this, of empty_fs]
  have "locate empty_fs (getFullPath (fileManager demo_rh) ''.txt'') \<noteq> []" by simp
  then have r: "readFile (fileManager demo_rh) empty_fs ''.txt'' = Inr None"
    by (intro readFile_absent node_at_empty_fs)
  have h: "handleReadRequest demo_rh empty_fs new_response (JStr ''.txt'')
      = send404 new_response ''.txt''"
    unfolding e by (simp add: r)
  show ?thesis using v unfolding h
    by (simp add: send404_def new_response_def del: isValidFilename.simps)
qed

end
